theory Spec2Isabelle
  imports Complex_Main "HOL-Library.Product_Lexorder"
begin

section \<open>Order analytics ETL (dags/order\_analytics\_dag.py)\<close>

text \<open>
  The program is a Python driver around five SQL statements that PostgreSQL executes
  through psycopg2. The embedding keeps the six Python functions under their names
  (\<open>get_db_connection\<close>, \<open>create_tables\<close>, \<open>fetch_query_results\<close>,
  \<open>upsert_product_performance\<close>, \<open>upsert_daily_trends\<close>,
  \<open>extract_transform_load\<close>) and gives each SQL statement of the source a denotation
  on an explicit database state. Exceptions are values of the type \<open>error\<close>; the
  database, the clock, the outcome of connection attempts and the sequence of effects
  (log lines, statements, commits) are fields of an explicit \<open>world\<close>.

  What the embedding takes for granted: the three source columns are never NULL; NUMERIC
  values are rationals, so the quotient of AVG is exact where PostgreSQL rounds it to a
  display scale; COUNT(*) is unbounded, while a value assigned to an INTEGER column is
  checked against 32 bits; a destination relation that exists has the columns of its
  CREATE TABLE statement; the order in which GROUP BY alone returns its groups (left open
  by SQL) is the order of first appearance; no other transaction runs during a run.
\<close>

subsection \<open>Data model\<close>

text \<open>A calendar date is (year, month, day), ordered lexicographically; a timestamp is a
  date and the microseconds since midnight. \<open>DATE(created_at)\<close> keeps the date.\<close>

type_synonym date = "nat \<times> nat \<times> nat"
type_synonym timestamp = "date \<times> nat"

definition DATE :: "timestamp \<Rightarrow> date" where
  "DATE ts = fst ts"

text \<open>A row of the source relation \<open>"order"\<close>: the three columns the queries read.
  NUMERIC is modelled by the rationals.\<close>

record order_rec =
  product :: string
  amount :: rat
  created_at :: timestamp

text \<open>Rows of the destination relations, with the columns of the two CREATE TABLE
  statements (lines 35-41 and 44-48).\<close>

record pp_row =
  pp_product :: string
  order_count :: int
  total_sales :: rat
  avg_sales :: rat
  report_date :: date

record dt_row =
  order_date :: date
  daily_orders :: int
  daily_sales :: rat

text \<open>A relation that does not exist is \<open>None\<close>. A relation is the list of its rows: the
  type does not make keys unique.\<close>

record database =
  order_tbl :: "order_rec list option"
  product_performance :: "pp_row list option"
  daily_trends :: "dt_row list option"

text \<open>The values that travel between Python and SQL: a fetched row and a parameter
  tuple are lists of these.\<close>

datatype sql_value = Text string | Bigint int | Numeric rat | Date date

datatype statement =
    CreateProductPerformance
  | CreateDailyTrends
  | SelectProductPerformance
  | SelectDailyTrends
  | UpsertProductPerformance "sql_value list list"
  | UpsertDailyTrends "sql_value list list"

datatype error =
    OperationalError
  | UndefinedTable
  | TooFewExpressions
  | TooManyExpressions
  | DatatypeMismatch
  | NumericValueOutOfRange
  | StringDataRightTruncation
  | CardinalityViolation
  | ValueError

datatype log_line =
    EtlStarting
  | ProductReportHeader
  | ProductLine sql_value sql_value sql_value sql_value
  | DailyReportHeader
  | DailyLine sql_value sql_value sql_value
  | EtlCompleted

datatype event = Log log_line | Connect | Execute statement | Commit | Rollback

text \<open>\<open>store\<close> is the committed database; \<open>current_date\<close> is what CURRENT\_DATE
  evaluates to; \<open>conn_refused\<close> gives the outcome of the successive calls of
  \<open>psycopg2.connect\<close> (\<open>True\<close>: the call raises; past the end of the list every call
  succeeds); \<open>trace\<close> is the chronological list of effects.\<close>

record world =
  store :: database
  current_date :: date
  conn_refused :: "bool list"
  trace :: "event list"

definition emit :: "event \<Rightarrow> world \<Rightarrow> world" where
  "emit e w = w\<lparr>trace := trace w @ [e]\<rparr>"

subsection \<open>The aggregation queries (lines 65-69 and 95-100)\<close>

text \<open>GROUP BY with COUNT(*) and SUM(amount): one pass over the rows that keeps, for each
  key met so far, the number of rows and the running sum (the aggregates' transition
  states). AVG divides the sum by the count when the group is finished.\<close>

fun accumulate :: "'k \<Rightarrow> rat \<Rightarrow> ('k \<times> nat \<times> rat) list \<Rightarrow> ('k \<times> nat \<times> rat) list" where
  "accumulate k a [] = [(k, 1, a)]"
| "accumulate k a ((k', n, s) # gs) =
     (if k = k' then (k', n + 1, s + a) # gs else (k', n, s) # accumulate k a gs)"

definition group_by :: "('r \<Rightarrow> 'k) \<Rightarrow> ('r \<Rightarrow> rat) \<Rightarrow> 'r list \<Rightarrow> ('k \<times> nat \<times> rat) list" where
  "group_by key val rs = foldl (\<lambda>gs r. accumulate (key r) (val r) gs) [] rs"

definition product_performance_query :: "order_rec list \<Rightarrow> sql_value list list" where
  "product_performance_query os =
     map (\<lambda>(p, n, s). [Text p, Bigint (int n), Numeric s, Numeric (s / of_nat n)])
       (group_by product amount os)"

definition daily_trends_query :: "order_rec list \<Rightarrow> sql_value list list" where
  "daily_trends_query os =
     map (\<lambda>(d, n, s). [Date d, Bigint (int n), Numeric s])
       (sort_key fst (group_by (\<lambda>r. DATE (created_at r)) amount os))"

subsection \<open>The INSERT ... ON CONFLICT statements (lines 80-88 and 111-117)\<close>

text \<open>The column lists of the two INSERT statements, as written in the source.\<close>

definition pp_insert_columns :: "string list" where
  "pp_insert_columns =
     [''product'', ''order_count'', ''total_sales'', ''avg_sales'', ''report_date'']"

definition dt_insert_columns :: "string list" where
  "dt_insert_columns = [''order_date'', ''daily_orders'', ''daily_sales'']"

text \<open>Parse analysis of a VALUES list against an explicit column list: PostgreSQL rejects
  the statement when a row has more expressions than target columns, and, since the
  column list is explicit, also when it has fewer.\<close>

fun check_arity :: "string list \<Rightarrow> sql_value list list \<Rightarrow> error + unit" where
  "check_arity cols [] = Inr ()"
| "check_arity cols (vs # rest) =
     (if length vs > length cols then Inl TooManyExpressions
      else if length vs < length cols then Inl TooFewExpressions
      else check_arity cols rest)"

text \<open>Assignment coercion to the column types: VARCHAR(255), INTEGER (32 bits), NUMERIC
  and DATE.\<close>

fun to_varchar255 :: "sql_value \<Rightarrow> error + string" where
  "to_varchar255 (Text s) = (if length s \<le> 255 then Inr s else Inl StringDataRightTruncation)"
| "to_varchar255 _ = Inl DatatypeMismatch"

fun to_integer :: "sql_value \<Rightarrow> error + int" where
  "to_integer (Bigint i) =
     (if - 2147483648 \<le> i \<and> i \<le> 2147483647 then Inr i else Inl NumericValueOutOfRange)"
| "to_integer _ = Inl DatatypeMismatch"

fun to_numeric :: "sql_value \<Rightarrow> error + rat" where
  "to_numeric (Numeric q) = Inr q"
| "to_numeric (Bigint i) = Inr (of_int i)"
| "to_numeric _ = Inl DatatypeMismatch"

fun to_date :: "sql_value \<Rightarrow> error + date" where
  "to_date (Date d) = Inr d"
| "to_date _ = Inl DatatypeMismatch"

definition pp_values_row :: "sql_value list \<Rightarrow> error + pp_row" where
  "pp_values_row vs =
     (case vs of
        [v1, v2, v3, v4, v5] \<Rightarrow>
          (case to_varchar255 v1 of Inl e \<Rightarrow> Inl e | Inr p \<Rightarrow>
           case to_integer v2 of Inl e \<Rightarrow> Inl e | Inr c \<Rightarrow>
           case to_numeric v3 of Inl e \<Rightarrow> Inl e | Inr t \<Rightarrow>
           case to_numeric v4 of Inl e \<Rightarrow> Inl e | Inr a \<Rightarrow>
           case to_date v5 of Inl e \<Rightarrow> Inl e | Inr d \<Rightarrow>
             Inr \<lparr>pp_product = p, order_count = c, total_sales = t, avg_sales = a,
                  report_date = d\<rparr>)
      | _ \<Rightarrow> Inl DatatypeMismatch)"

definition dt_values_row :: "sql_value list \<Rightarrow> error + dt_row" where
  "dt_values_row vs =
     (case vs of
        [v1, v2, v3] \<Rightarrow>
          (case to_date v1 of Inl e \<Rightarrow> Inl e | Inr d \<Rightarrow>
           case to_integer v2 of Inl e \<Rightarrow> Inl e | Inr c \<Rightarrow>
           case to_numeric v3 of Inl e \<Rightarrow> Inl e | Inr s \<Rightarrow>
             Inr \<lparr>order_date = d, daily_orders = c, daily_sales = s\<rparr>)
      | _ \<Rightarrow> Inl DatatypeMismatch)"

fun values_rows :: "(sql_value list \<Rightarrow> error + 'r) \<Rightarrow> sql_value list list \<Rightarrow> error + 'r list" where
  "values_rows f [] = Inr []"
| "values_rows f (vs # rest) =
     (case f vs of Inl e \<Rightarrow> Inl e | Inr r \<Rightarrow>
      case values_rows f rest of Inl e \<Rightarrow> Inl e | Inr rs \<Rightarrow> Inr (r # rs))"

text \<open>DO UPDATE SET: the existing row with the listed columns overwritten from EXCLUDED
  (the row proposed for insertion); \<open>report_date\<close> is set from CURRENT\_DATE.\<close>

definition pp_do_update :: "date \<Rightarrow> pp_row \<Rightarrow> pp_row \<Rightarrow> pp_row" where
  "pp_do_update today existing excluded =
     existing\<lparr>order_count := order_count excluded, total_sales := total_sales excluded,
       avg_sales := avg_sales excluded, report_date := today\<rparr>"

definition dt_do_update :: "dt_row \<Rightarrow> dt_row \<Rightarrow> dt_row" where
  "dt_do_update existing excluded =
     existing\<lparr>daily_orders := daily_orders excluded, daily_sales := daily_sales excluded\<rparr>"

text \<open>One INSERT ... ON CONFLICT (key) DO UPDATE command over its proposed rows, in order.
  \<open>touched\<close> holds the keys this command has inserted or updated: a proposed row whose
  key is among them makes the command fail (it "cannot affect row a second time").\<close>

fun on_conflict_do_update ::
  "('r \<Rightarrow> 'k) \<Rightarrow> ('r \<Rightarrow> 'r \<Rightarrow> 'r) \<Rightarrow> 'r list \<Rightarrow> 'k list \<Rightarrow> 'r list \<Rightarrow> error + 'r list" where
  "on_conflict_do_update key upd [] touched tbl = Inr tbl"
| "on_conflict_do_update key upd (r # rs) touched tbl =
     (if key r \<in> set touched then Inl CardinalityViolation
      else if key r \<in> key ` set tbl
      then on_conflict_do_update key upd rs (key r # touched)
             (map (\<lambda>x. if key x = key r then upd x r else x) tbl)
      else on_conflict_do_update key upd rs (key r # touched) (tbl @ [r]))"

subsection \<open>Statement execution\<close>

text \<open>What one statement does to the database of the running transaction, and the rows
  it returns.\<close>

fun exec_sql :: "date \<Rightarrow> statement \<Rightarrow> database \<Rightarrow> error + (sql_value list list \<times> database)" where
  "exec_sql today CreateProductPerformance db =
     Inr ([], db\<lparr>product_performance :=
                  Some (case product_performance db of None \<Rightarrow> [] | Some t \<Rightarrow> t)\<rparr>)"
| "exec_sql today CreateDailyTrends db =
     Inr ([], db\<lparr>daily_trends :=
                  Some (case daily_trends db of None \<Rightarrow> [] | Some t \<Rightarrow> t)\<rparr>)"
| "exec_sql today SelectProductPerformance db =
     (case order_tbl db of
        None \<Rightarrow> Inl UndefinedTable
      | Some os \<Rightarrow> Inr (product_performance_query os, db))"
| "exec_sql today SelectDailyTrends db =
     (case order_tbl db of
        None \<Rightarrow> Inl UndefinedTable
      | Some os \<Rightarrow> Inr (daily_trends_query os, db))"
| "exec_sql today (UpsertProductPerformance vals) db =
     (case product_performance db of
        None \<Rightarrow> Inl UndefinedTable
      | Some tbl \<Rightarrow>
          (case check_arity pp_insert_columns vals of Inl e \<Rightarrow> Inl e | Inr _ \<Rightarrow>
           case values_rows pp_values_row vals of Inl e \<Rightarrow> Inl e | Inr rs \<Rightarrow>
           case on_conflict_do_update pp_product (pp_do_update today) rs [] tbl of
             Inl e \<Rightarrow> Inl e
           | Inr tbl' \<Rightarrow> Inr ([], db\<lparr>product_performance := Some tbl'\<rparr>)))"
| "exec_sql today (UpsertDailyTrends vals) db =
     (case daily_trends db of
        None \<Rightarrow> Inl UndefinedTable
      | Some tbl \<Rightarrow>
          (case check_arity dt_insert_columns vals of Inl e \<Rightarrow> Inl e | Inr _ \<Rightarrow>
           case values_rows dt_values_row vals of Inl e \<Rightarrow> Inl e | Inr rs \<Rightarrow>
           case on_conflict_do_update order_date dt_do_update rs [] tbl of
             Inl e \<Rightarrow> Inl e
           | Inr tbl' \<Rightarrow> Inr ([], db\<lparr>daily_trends := Some tbl'\<rparr>)))"

text \<open>\<open>cur.execute\<close>: the statement reaches the server and runs on the transaction's
  database.\<close>

definition cur_execute ::
  "statement \<Rightarrow> database \<Rightarrow> world \<Rightarrow> (error + (sql_value list list \<times> database)) \<times> world" where
  "cur_execute q db w = (exec_sql (current_date w) q db, emit (Execute q) w)"

text \<open>\<open>psycopg2.extras.execute_values\<close> with its default page size of 100: the argument
  list is cut into pages, and each page is sent as one statement whose VALUES list holds
  the page's tuples.\<close>

function paginate :: "nat \<Rightarrow> 'a list \<Rightarrow> 'a list list" where
  "paginate page_size seq =
     (if seq = [] \<or> page_size = 0 then []
      else take page_size seq # paginate page_size (drop page_size seq))"
  by pat_completeness auto
termination
  by (relation "measure (\<lambda>(n, xs). length xs)") auto

declare paginate.simps [simp del]

fun execute_pages ::
  "(sql_value list list \<Rightarrow> statement) \<Rightarrow> sql_value list list list \<Rightarrow> database \<Rightarrow> world \<Rightarrow>
     (error + database) \<times> world" where
  "execute_pages upsert_query [] db w = (Inr db, w)"
| "execute_pages upsert_query (page # pages) db w =
     (case cur_execute (upsert_query page) db w of
        (Inl e, w') \<Rightarrow> (Inl e, w')
      | (Inr (_, db'), w') \<Rightarrow> execute_pages upsert_query pages db' w')"

definition execute_values ::
  "(sql_value list list \<Rightarrow> statement) \<Rightarrow> sql_value list list \<Rightarrow> database \<Rightarrow> world \<Rightarrow>
     (error + database) \<times> world" where
  "execute_values upsert_query argslist db w =
     execute_pages upsert_query (paginate 100 argslist) db w"

subsection \<open>Connections and transactions\<close>

definition get_db_connection :: "world \<Rightarrow> (error + unit) \<times> world" where
  "get_db_connection w =
     (case conn_refused w of
        [] \<Rightarrow> (Inr (), emit Connect w)
      | refused # rest \<Rightarrow>
          (if refused then (Inl OperationalError, w\<lparr>conn_refused := rest\<rparr>)
           else (Inr (), emit Connect (w\<lparr>conn_refused := rest\<rparr>))))"

text \<open>\<open>with get_db_connection() as conn, conn.cursor() as cur\<close>: the body runs on the
  committed database; leaving the block normally commits what the body did, leaving it by
  an exception rolls it back and the exception propagates.\<close>

definition with_connection ::
  "(database \<Rightarrow> world \<Rightarrow> (error + ('a \<times> database)) \<times> world) \<Rightarrow> world \<Rightarrow> (error + 'a) \<times> world" where
  "with_connection body w =
     (case get_db_connection w of
        (Inl e, w1) \<Rightarrow> (Inl e, w1)
      | (Inr _, w1) \<Rightarrow>
          (case body (store w1) w1 of
             (Inl e, w2) \<Rightarrow> (Inl e, emit Rollback w2)
           | (Inr (x, db'), w2) \<Rightarrow> (Inr x, emit Commit (w2\<lparr>store := db'\<rparr>))))"

subsection \<open>The functions of the DAG file\<close>

fun execute_queries ::
  "statement list \<Rightarrow> database \<Rightarrow> world \<Rightarrow> (error + (unit \<times> database)) \<times> world" where
  "execute_queries [] db w = (Inr ((), db), w)"
| "execute_queries (query # queries) db w =
     (case cur_execute query db w of
        (Inl e, w') \<Rightarrow> (Inl e, w')
      | (Inr (_, db'), w') \<Rightarrow> execute_queries queries db' w')"

definition create_tables :: "world \<Rightarrow> (error + unit) \<times> world" where
  "create_tables w =
     with_connection (execute_queries [CreateProductPerformance, CreateDailyTrends]) w"

definition fetch_query_results :: "statement \<Rightarrow> world \<Rightarrow> (error + sql_value list list) \<times> world" where
  "fetch_query_results query w = with_connection (cur_execute query) w"

text \<open>The two \<open>for row in results\<close> loops: unpack the row, log it, append the tuple.\<close>

fun product_rows ::
  "sql_value list list \<Rightarrow> sql_value list list \<Rightarrow> world \<Rightarrow> (error + sql_value list list) \<times> world" where
  "product_rows [] data w = (Inr data, w)"
| "product_rows (row # results) data w =
     (case row of
        [p, c, t, a] \<Rightarrow>
          product_rows results (data @ [[p, c, t, a]]) (emit (Log (ProductLine p c t a)) w)
      | _ \<Rightarrow> (Inl ValueError, w))"

fun daily_rows ::
  "sql_value list list \<Rightarrow> sql_value list list \<Rightarrow> world \<Rightarrow> (error + sql_value list list) \<times> world" where
  "daily_rows [] data w = (Inr data, w)"
| "daily_rows (row # results) data w =
     (case row of
        [d, c, s] \<Rightarrow>
          daily_rows results (data @ [[d, c, s]]) (emit (Log (DailyLine d c s)) w)
      | _ \<Rightarrow> (Inl ValueError, w))"

text \<open>The block that ends both upsert functions (lines 89-91 and 118-120): a connection,
  \<open>execute_values(cur, upsert_query, data)\<close>, \<open>conn.commit()\<close>.\<close>

definition run_upsert ::
  "(sql_value list list \<Rightarrow> statement) \<Rightarrow> sql_value list list \<Rightarrow> world \<Rightarrow> (error + unit) \<times> world" where
  "run_upsert upsert_query data w =
     with_connection
       (\<lambda>db w'. case execute_values upsert_query data db w' of
                  (Inl e, w'') \<Rightarrow> (Inl e, w'')
                | (Inr db', w'') \<Rightarrow> (Inr ((), db'), w'')) w"

definition upsert_product_performance :: "world \<Rightarrow> (error + unit) \<times> world" where
  "upsert_product_performance w =
     (case fetch_query_results SelectProductPerformance w of
        (Inl e, w1) \<Rightarrow> (Inl e, w1)
      | (Inr results, w1) \<Rightarrow>
          (case product_rows results [] (emit (Log ProductReportHeader) w1) of
             (Inl e, w2) \<Rightarrow> (Inl e, w2)
           | (Inr data, w2) \<Rightarrow>
               (if data \<noteq> [] then run_upsert UpsertProductPerformance data w2
                else (Inr (), w2))))"

definition upsert_daily_trends :: "world \<Rightarrow> (error + unit) \<times> world" where
  "upsert_daily_trends w =
     (case fetch_query_results SelectDailyTrends w of
        (Inl e, w1) \<Rightarrow> (Inl e, w1)
      | (Inr results, w1) \<Rightarrow>
          (case daily_rows results [] (emit (Log DailyReportHeader) w1) of
             (Inl e, w2) \<Rightarrow> (Inl e, w2)
           | (Inr data, w2) \<Rightarrow>
               (if data \<noteq> [] then run_upsert UpsertDailyTrends data w2
                else (Inr (), w2))))"

definition extract_transform_load :: "world \<Rightarrow> (error + unit) \<times> world" where
  "extract_transform_load w =
     (case create_tables (emit (Log EtlStarting) w) of
        (Inl e, w1) \<Rightarrow> (Inl e, w1)
      | (Inr _, w1) \<Rightarrow>
          (case upsert_product_performance w1 of
             (Inl e, w2) \<Rightarrow> (Inl e, w2)
           | (Inr _, w2) \<Rightarrow>
               (case upsert_daily_trends w2 of
                  (Inl e, w3) \<Rightarrow> (Inl e, w3)
                | (Inr _, w3) \<Rightarrow> (Inr (), emit (Log EtlCompleted) w3))))"

subsection \<open>Auxiliary notions for the statements below\<close>

text \<open>\<open>refused w\<close>: the next connection attempt raises. \<open>connected w\<close>: the world
  right after a successful connection attempt.\<close>

definition refused :: "world \<Rightarrow> bool" where
  "refused w = (conn_refused w \<noteq> [] \<and> hd (conn_refused w))"

definition connected :: "world \<Rightarrow> world" where
  "connected w = emit Connect (w\<lparr>conn_refused := tl (conn_refused w)\<rparr>)"

text \<open>A database on which the product upsert is attempted: one order, both destination
  relations present and empty, every connection accepted.\<close>

definition one_order_world :: world where
  "one_order_world =
     \<lparr>store = \<lparr>order_tbl = Some [\<lparr>product = ''A'', amount = 10, created_at = ((2025, 1, 1), 0)\<rparr>],
                product_performance = Some [], daily_trends = Some []\<rparr>,
      current_date = (2025, 1, 3), conn_refused = [], trace = []\<rparr>"

text \<open>The orders of the specification's example for the product report, on a database
  without destination relations.\<close>

definition abc_orders :: "order_rec list" where
  "abc_orders =
     [\<lparr>product = ''A'', amount = 10, created_at = ((2025, 1, 1), 0)\<rparr>,
      \<lparr>product = ''A'', amount = 20, created_at = ((2025, 1, 2), 0)\<rparr>,
      \<lparr>product = ''B'', amount = 5, created_at = ((2025, 1, 2), 0)\<rparr>]"

definition abc_world :: world where
  "abc_world =
     \<lparr>store = \<lparr>order_tbl = Some abc_orders, product_performance = None, daily_trends = None\<rparr>,
      current_date = (2025, 1, 3), conn_refused = [], trace = []\<rparr>"

text \<open>The daily report as the specification words it: one row per calendar date of the
  source, in ascending date order, with the number of orders of that date and the sum of
  their amounts.\<close>

definition daily_trends_spec :: "order_rec list \<Rightarrow> sql_value list list" where
  "daily_trends_spec os =
     map (\<lambda>d. [Date d,
                Bigint (int (length (filter (\<lambda>r. DATE (created_at r) = d) os))),
                Numeric (sum_list (map amount (filter (\<lambda>r. DATE (created_at r) = d) os)))])
       (sort (remdups (map (\<lambda>r. DATE (created_at r)) os)))"

text \<open>The specification's example for the daily report: two orders on 2025-01-01 that
  total 15 and one order of 7 on 2025-01-02, on a database whose destination relations
  exist and are empty.\<close>

definition two_days_orders :: "order_rec list" where
  "two_days_orders =
     [\<lparr>product = ''X'', amount = 10, created_at = ((2025, 1, 1), 32400000000)\<rparr>,
      \<lparr>product = ''X'', amount = 7, created_at = ((2025, 1, 2), 0)\<rparr>,
      \<lparr>product = ''Y'', amount = 5, created_at = ((2025, 1, 1), 86399999999)\<rparr>]"

definition two_days_world :: world where
  "two_days_world =
     \<lparr>store = \<lparr>order_tbl = Some two_days_orders, product_performance = Some [],
                daily_trends = Some []\<rparr>,
      current_date = (2025, 1, 3), conn_refused = [], trace = []\<rparr>"

definition two_days_rows :: "sql_value list list" where
  "two_days_rows =
     [[Date (2025, 1, 1), Bigint 2, Numeric 15], [Date (2025, 1, 2), Bigint 1, Numeric 7]]"

text \<open>At most one row per key in each destination relation that exists.\<close>

definition keys_unique :: "database \<Rightarrow> bool" where
  "keys_unique db =
     ((case product_performance db of None \<Rightarrow> True | Some t \<Rightarrow> distinct (map pp_product t)) \<and>
      (case daily_trends db of None \<Rightarrow> True | Some t \<Rightarrow> distinct (map order_date t)))"

text \<open>The scheduler invokes the run again and again; between two runs the source relation,
  the date and the reachability of the server may have changed.\<close>

fun scheduled_runs :: "(order_rec list option \<times> date \<times> bool list) list \<Rightarrow> world \<Rightarrow> world" where
  "scheduled_runs [] w = w"
| "scheduled_runs ((source, today, refusals) # later) w =
     scheduled_runs later
       (snd (extract_transform_load
          (w\<lparr>store := (store w)\<lparr>order_tbl := source\<rparr>, current_date := today,
             conn_refused := refusals\<rparr>)))"

text \<open>A database without destination relations.\<close>

definition fresh_world :: world where
  "fresh_world =
     \<lparr>store = \<lparr>order_tbl = Some [], product_performance = None, daily_trends = None\<rparr>,
      current_date = (2025, 1, 1), conn_refused = [], trace = []\<rparr>"

text \<open>The keys of the run's source aggregation, the rows of a relation whose key is not
  among given keys (an absent relation has no rows), and the upsert statements among
  the effects.\<close>

definition source_products :: "world \<Rightarrow> string list" where
  "source_products w = (case order_tbl (store w) of None \<Rightarrow> [] | Some os \<Rightarrow> map product os)"

definition source_dates :: "world \<Rightarrow> date list" where
  "source_dates w =
     (case order_tbl (store w) of None \<Rightarrow> [] | Some os \<Rightarrow> map (\<lambda>r. DATE (created_at r)) os)"

definition rows_outside :: "('r \<Rightarrow> 'k) \<Rightarrow> 'k list \<Rightarrow> 'r list option \<Rightarrow> 'r list" where
  "rows_outside key ks tbl =
     filter (\<lambda>r. key r \<notin> set ks) (case tbl of None \<Rightarrow> [] | Some t \<Rightarrow> t)"

fun is_upsert :: "event \<Rightarrow> bool" where
  "is_upsert (Execute (UpsertProductPerformance vals)) = True"
| "is_upsert (Execute (UpsertDailyTrends vals)) = True"
| "is_upsert e = False"

text \<open>A database whose destination relations hold rows of earlier origin.\<close>

definition stale_world :: "order_rec list \<Rightarrow> world" where
  "stale_world os =
     \<lparr>store = \<lparr>order_tbl = Some os,
                product_performance =
                  Some [\<lparr>pp_product = ''Z'', order_count = 4, total_sales = 40, avg_sales = 10,
                         report_date = (2024, 12, 31)\<rparr>],
                daily_trends =
                  Some [\<lparr>order_date = (2024, 12, 31), daily_orders = 4, daily_sales = 40\<rparr>,
                        \<lparr>order_date = (2025, 1, 1), daily_orders = 1, daily_sales = 1\<rparr>]\<rparr>,
      current_date = (2025, 1, 3), conn_refused = [], trace = []\<rparr>"

text \<open>What a run may not change, relative to the world it started in.\<close>

definition frame :: "world \<Rightarrow> database \<Rightarrow> bool" where
  "frame w d =
     (order_tbl d = order_tbl (store w) \<and>
      rows_outside pp_product (source_products w) (product_performance d) =
        rows_outside pp_product (source_products w) (product_performance (store w)) \<and>
      rows_outside order_date (source_dates w) (daily_trends d) =
        rows_outside order_date (source_dates w) (daily_trends (store w)))"

text \<open>The world of a run after its schema step, and after its product step.\<close>

definition after_schema :: "world \<Rightarrow> world" where
  "after_schema w = snd (create_tables (emit (Log EtlStarting) w))"

definition after_products :: "world \<Rightarrow> world" where
  "after_products w = snd (upsert_product_performance (after_schema w))"

text \<open>An empty source on a server that refuses the third connection of the run.\<close>

definition third_refused_world :: world where
  "third_refused_world =
     \<lparr>store = \<lparr>order_tbl = Some [], product_performance = None, daily_trends = None\<rparr>,
      current_date = (2025, 1, 3), conn_refused = [False, False, True], trace = []\<rparr>"

text \<open>The effects each step can have, and the effects a step adds to a world.\<close>

fun schema_event :: "event \<Rightarrow> bool" where
  "schema_event Connect = True"
| "schema_event Commit = True"
| "schema_event Rollback = True"
| "schema_event (Execute CreateProductPerformance) = True"
| "schema_event (Execute CreateDailyTrends) = True"
| "schema_event e = False"

fun product_event :: "event \<Rightarrow> bool" where
  "product_event Connect = True"
| "product_event Commit = True"
| "product_event Rollback = True"
| "product_event (Execute SelectProductPerformance) = True"
| "product_event (Execute (UpsertProductPerformance vals)) = True"
| "product_event (Log ProductReportHeader) = True"
| "product_event (Log (ProductLine p c t a)) = True"
| "product_event e = False"

fun daily_event :: "event \<Rightarrow> bool" where
  "daily_event Connect = True"
| "daily_event Commit = True"
| "daily_event Rollback = True"
| "daily_event (Execute SelectDailyTrends) = True"
| "daily_event (Execute (UpsertDailyTrends vals)) = True"
| "daily_event (Log DailyReportHeader) = True"
| "daily_event (Log (DailyLine d c s)) = True"
| "daily_event e = False"

definition step_events :: "(world \<Rightarrow> 'a \<times> world) \<Rightarrow> world \<Rightarrow> event list" where
  "step_events f w = drop (length (trace w)) (trace (snd (f w)))"

text \<open>Two runs on consecutive days over the same source, on a database whose relations
  already hold rows for the keys of the source.\<close>

definition z_orders :: "order_rec list" where
  "z_orders = [\<lparr>product = ''Z'', amount = 10, created_at = ((2025, 1, 1), 0)\<rparr>]"

definition first_run :: world where
  "first_run = snd (extract_transform_load (stale_world z_orders))"

definition second_run_start :: world where
  "second_run_start = first_run\<lparr>current_date := (2025, 1, 4), conn_refused := []\<rparr>"

text \<open>What one proposed row does to a relation when no key is proposed twice: the rows of
  its key are overwritten in place, or the row is appended.\<close>

definition upsert_row :: "('r \<Rightarrow> 'k) \<Rightarrow> ('r \<Rightarrow> 'r \<Rightarrow> 'r) \<Rightarrow> 'r list \<Rightarrow> 'r \<Rightarrow> 'r list" where
  "upsert_row key upd tbl r =
     (if key r \<in> key ` set tbl then map (\<lambda>x. if key x = key r then upd x r else x) tbl
      else tbl @ [r])"

text \<open>The daily report as rows of daily\_trends, the parameter tuple of a row, and the
  range of the INTEGER column.\<close>

definition dt_values :: "dt_row \<Rightarrow> sql_value list" where
  "dt_values r = [Date (order_date r), Bigint (daily_orders r), Numeric (daily_sales r)]"

definition daily_trends_rows :: "order_rec list \<Rightarrow> dt_row list" where
  "daily_trends_rows os =
     map (\<lambda>d. \<lparr>order_date = d,
                daily_orders = int (length (filter (\<lambda>r. DATE (created_at r) = d) os)),
                daily_sales = sum_list (map amount (filter (\<lambda>r. DATE (created_at r) = d) os))\<rparr>)
       (sort (remdups (map (\<lambda>r. DATE (created_at r)) os)))"

text \<open>The relation daily\_trends after a daily step, as the specification words the upsert:
  every row whose date has orders in the source carries the count and the sum of that
  date, every other row is as it was, and one row is appended, in ascending date order,
  for each date of the source that had no row.\<close>

definition daily_trends_after :: "order_rec list \<Rightarrow> dt_row list \<Rightarrow> dt_row list" where
  "daily_trends_after os tbl =
     map (\<lambda>x. if order_date x \<in> set (map (\<lambda>r. DATE (created_at r)) os)
               then x\<lparr>daily_orders :=
                        int (length (filter (\<lambda>r. DATE (created_at r) = order_date x) os)),
                      daily_sales :=
                        sum_list (map amount (filter (\<lambda>r. DATE (created_at r) = order_date x) os))\<rparr>
               else x) tbl @
     filter (\<lambda>r. order_date r \<notin> order_date ` set tbl) (daily_trends_rows os)"

definition dt_in_range :: "dt_row \<Rightarrow> bool" where
  "dt_in_range r = (- 2147483648 \<le> daily_orders r \<and> daily_orders r \<le> 2147483647)"

section \<open>Properties\<close>

subsection \<open>Grouping\<close>

lemma accumulate_keys:
  "map fst (accumulate k a gs) = (if k \<in> fst ` set gs then map fst gs else map fst gs @ [k])"
  by (induction k a gs rule: accumulate.induct) auto

lemma accumulate_distinct:
  "distinct (map fst gs) \<Longrightarrow> distinct (map fst (accumulate k a gs))"
  by (simp add: accumulate_keys)

lemma accumulate_map_of:
  "map_of (accumulate k a gs) =
     (map_of gs)(k \<mapsto> (case map_of gs k of None \<Rightarrow> (1, a) | Some (n, s) \<Rightarrow> (n + 1, s + a)))"
  by (induction k a gs rule: accumulate.induct) (auto simp: fun_eq_iff)

lemma group_by_snoc:
  "group_by key val (rs @ [r]) = accumulate (key r) (val r) (group_by key val rs)"
  by (simp add: group_by_def)

lemma group_by_Nil: "group_by key val [] = []"
  by (simp add: group_by_def)

lemma group_by_distinct: "distinct (map fst (group_by key val rs))"
  by (induction rs rule: rev_induct) (simp_all add: group_by_Nil group_by_snoc accumulate_distinct)

lemma group_by_keys: "fst ` set (group_by key val rs) = key ` set rs"
proof (induction rs rule: rev_induct)
  case Nil
  show ?case by (simp add: group_by_Nil)
next
  case (snoc r rs)
  have "set (map fst (group_by key val (rs @ [r]))) = insert (key r) (fst ` set (group_by key val rs))"
    by (auto simp: group_by_snoc accumulate_keys)
  with snoc show ?case by auto
qed

lemma group_by_map_of:
  "map_of (group_by key val rs) k =
     (if k \<in> key ` set rs
      then Some (length (filter (\<lambda>r. key r = k) rs), sum_list (map val (filter (\<lambda>r. key r = k) rs)))
      else None)"
proof (induction rs arbitrary: k rule: rev_induct)
  case Nil
  show ?case by (simp add: group_by_Nil)
next
  case (snoc r rs)
  show ?case
  proof (cases "k = key r")
    case True
    have "key r \<notin> key ` set rs \<Longrightarrow> filter (\<lambda>x. key x = key r) rs = []"
      by (metis (mono_tags, lifting) filter_False imageI)
    with True show ?thesis
      by (auto simp: group_by_snoc accumulate_map_of snoc [of "key r"])
  next
    case False
    then show ?thesis
      by (simp add: group_by_snoc accumulate_map_of snoc [of k])
  qed
qed

lemma group_by_member:
  assumes "(k, n, s) \<in> set (group_by key val rs)"
  shows "n = length (filter (\<lambda>r. key r = k) rs) \<and> s = sum_list (map val (filter (\<lambda>r. key r = k) rs))
     \<and> k \<in> key ` set rs"
proof -
  have "map_of (group_by key val rs) k = Some (n, s)"
    using assms group_by_distinct [of key val rs] by simp
  then show ?thesis
    by (simp add: group_by_map_of split: if_splits)
qed

subsection \<open>ON CONFLICT DO UPDATE\<close>

lemma ocdu_distinct:
  assumes kp: "\<And>x r. key (upd x r) = key x"
  shows "on_conflict_do_update key upd rs touched tbl = Inr tbl' \<Longrightarrow> distinct (map key tbl)
     \<Longrightarrow> distinct (map key tbl')"
proof (induction rs arbitrary: touched tbl)
  case Nil
  then show ?case by simp
next
  case (Cons r rs)
  have same: "map key (map (\<lambda>x. if key x = key r then upd x r else x) tbl) = map key tbl"
    by (simp add: kp)
  show ?case
  proof (cases "key r \<in> key ` set tbl")
    case True
    with Cons.prems have "on_conflict_do_update key upd rs (key r # touched)
        (map (\<lambda>x. if key x = key r then upd x r else x) tbl) = Inr tbl'"
      by (simp split: if_splits)
    moreover have "distinct (map key (map (\<lambda>x. if key x = key r then upd x r else x) tbl))"
      using Cons.prems(2) by (simp only: same)
    ultimately show ?thesis by (rule Cons.IH)
  next
    case False
    with Cons.prems have "on_conflict_do_update key upd rs (key r # touched) (tbl @ [r]) = Inr tbl'"
      by (simp split: if_splits)
    moreover have "distinct (map key (tbl @ [r]))"
      using False Cons.prems(2) by auto
    ultimately show ?thesis by (rule Cons.IH)
  qed
qed

lemma ocdu_keys:
  assumes kp: "\<And>x r. key (upd x r) = key x"
  shows "on_conflict_do_update key upd rs touched tbl = Inr tbl' \<Longrightarrow>
     key ` set tbl' = key ` set tbl \<union> key ` set rs"
proof (induction rs arbitrary: touched tbl)
  case Nil
  then show ?case by simp
next
  case (Cons r rs)
  have same: "map key (map (\<lambda>x. if key x = key r then upd x r else x) tbl) = map key tbl"
    by (simp add: kp)
  then have same': "key ` set (map (\<lambda>x. if key x = key r then upd x r else x) tbl) = key ` set tbl"
    by (metis list.set_map)
  show ?case
  proof (cases "key r \<in> key ` set tbl")
    case True
    with Cons.prems have "on_conflict_do_update key upd rs (key r # touched)
        (map (\<lambda>x. if key x = key r then upd x r else x) tbl) = Inr tbl'"
      by (simp split: if_splits)
    from Cons.IH [OF this] same' True show ?thesis by auto
  next
    case False
    with Cons.prems have "on_conflict_do_update key upd rs (key r # touched) (tbl @ [r]) = Inr tbl'"
      by (simp split: if_splits)
    from Cons.IH [OF this] show ?thesis by auto
  qed
qed

lemma ocdu_frame:
  assumes kp: "\<And>x r. key (upd x r) = key x"
  shows "on_conflict_do_update key upd rs touched tbl = Inr tbl' \<Longrightarrow> key ` set rs \<subseteq> K \<Longrightarrow>
     filter (\<lambda>x. key x \<notin> K) tbl' = filter (\<lambda>x. key x \<notin> K) tbl"
proof (induction rs arbitrary: touched tbl)
  case Nil
  then show ?case by simp
next
  case (Cons r rs)
  from Cons.prems(2) have rK: "key r \<in> K" and rsK: "key ` set rs \<subseteq> K" by auto
  have same: "filter (\<lambda>x. key x \<notin> K) (map (\<lambda>x. if key x = key r then upd x r else x) tbl)
      = filter (\<lambda>x. key x \<notin> K) tbl"
    using rK by (induction tbl) (auto simp: kp)
  show ?case
  proof (cases "key r \<in> key ` set tbl")
    case True
    with Cons.prems have "on_conflict_do_update key upd rs (key r # touched)
        (map (\<lambda>x. if key x = key r then upd x r else x) tbl) = Inr tbl'"
      by (simp split: if_splits)
    from Cons.IH [OF this rsK] same show ?thesis by simp
  next
    case False
    with Cons.prems have "on_conflict_do_update key upd rs (key r # touched) (tbl @ [r]) = Inr tbl'"
      by (simp split: if_splits)
    from Cons.IH [OF this rsK] rK show ?thesis by simp
  qed
qed

lemma ocdu_succeeds:
  "distinct (map key rs) \<Longrightarrow> key ` set rs \<inter> set touched = {} \<Longrightarrow>
     \<exists>tbl'. on_conflict_do_update key upd rs touched tbl = Inr tbl'"
proof (induction rs arbitrary: touched tbl)
  case Nil
  then show ?case by simp
next
  case (Cons r rs)
  from Cons.prems have a: "key r \<notin> set touched" and b: "distinct (map key rs)"
    and c: "key ` set rs \<inter> set (key r # touched) = {}" by auto
  from Cons.IH [OF b c] a show ?case by simp
qed

lemma ocdu_error:
  "on_conflict_do_update key upd rs touched tbl = Inl e \<Longrightarrow> e = CardinalityViolation"
  by (induction rs arbitrary: touched tbl) (auto split: if_splits)

subsection \<open>Pages, connections, transactions\<close>

lemma paginate_Nil [simp]: "paginate n [] = []"
  by (simp add: paginate.simps)

lemma paginate_nonempty:
  "xs \<noteq> [] \<Longrightarrow> 0 < n \<Longrightarrow> paginate n xs = take n xs # paginate n (drop n xs)"
  by (subst paginate.simps) simp

lemma paginate_subset: "page \<in> set (paginate n xs) \<Longrightarrow> set page \<subseteq> set xs"
proof (induction n xs rule: paginate.induct)
  case (1 n xs)
  show ?case
  proof (cases "xs = [] \<or> n = 0")
    case True
    with "1.prems" show ?thesis by (simp add: paginate.simps)
  next
    case False
    with "1.prems" have "page = take n xs \<or> page \<in> set (paginate n (drop n xs))"
      by (simp add: paginate_nonempty)
    then show ?thesis
    proof
      assume "page = take n xs"
      then show ?thesis by (auto dest: in_set_takeD)
    next
      assume "page \<in> set (paginate n (drop n xs))"
      with "1.IH" False have "set page \<subseteq> set (drop n xs)" by simp
      then show ?thesis by (auto dest: in_set_dropD)
    qed
  qed
qed

lemma paginate_distinct:
  "page \<in> set (paginate n xs) \<Longrightarrow> distinct (map f xs) \<Longrightarrow> distinct (map f page)"
proof (induction n xs rule: paginate.induct)
  case (1 n xs)
  show ?case
  proof (cases "xs = [] \<or> n = 0")
    case True
    with "1.prems" show ?thesis by (simp add: paginate.simps)
  next
    case False
    with "1.prems" have "page = take n xs \<or> page \<in> set (paginate n (drop n xs))"
      by (simp add: paginate_nonempty)
    then show ?thesis
    proof
      assume "page = take n xs"
      with "1.prems"(2) show ?thesis by (simp add: take_map [symmetric] del: take_map)
    next
      assume "page \<in> set (paginate n (drop n xs))"
      moreover have "distinct (map f (drop n xs))"
        using "1.prems"(2) by (simp add: drop_map [symmetric] del: drop_map)
      ultimately show ?thesis using "1.IH" False by simp
    qed
  qed
qed

lemma emit_fields [simp]:
  "store (emit e w) = store w" "current_date (emit e w) = current_date w"
  "conn_refused (emit e w) = conn_refused w" "trace (emit e w) = trace w @ [e]"
  by (simp_all add: emit_def)

lemma get_db_connection_eq:
  "get_db_connection w =
     (if conn_refused w \<noteq> [] \<and> hd (conn_refused w)
      then (Inl OperationalError, w\<lparr>conn_refused := tl (conn_refused w)\<rparr>)
      else (Inr (), emit Connect (w\<lparr>conn_refused := tl (conn_refused w)\<rparr>)))"
  by (cases w) (simp add: get_db_connection_def emit_def split: list.splits)

lemma with_connection_cases:
  assumes "with_connection body w = (res, w')"
  obtains (refused) "res = Inl OperationalError" "w' = w\<lparr>conn_refused := tl (conn_refused w)\<rparr>"
      "conn_refused w \<noteq> []" "hd (conn_refused w)"
  | (raised) e w2 where
      "body (store w) (emit Connect (w\<lparr>conn_refused := tl (conn_refused w)\<rparr>)) = (Inl e, w2)"
      "res = Inl e" "w' = emit Rollback w2" "\<not> (conn_refused w \<noteq> [] \<and> hd (conn_refused w))"
  | (committed) x db' w2 where
      "body (store w) (emit Connect (w\<lparr>conn_refused := tl (conn_refused w)\<rparr>)) = (Inr (x, db'), w2)"
      "res = Inr x" "w' = emit Commit (w2\<lparr>store := db'\<rparr>)"
      "\<not> (conn_refused w \<noteq> [] \<and> hd (conn_refused w))"
  using assms unfolding with_connection_def get_db_connection_eq
  by (auto split: if_splits prod.splits sum.splits)

lemma cur_execute_world:
  "cur_execute q db w = (r, w') \<Longrightarrow> w' = emit (Execute q) w \<and> r = exec_sql (current_date w) q db"
  by (auto simp: cur_execute_def)

lemma execute_pages_world:
  "execute_pages q pages db w = (r, w') \<Longrightarrow>
     store w' = store w \<and> current_date w' = current_date w \<and> conn_refused w' = conn_refused w"
proof (induction pages arbitrary: db w)
  case Nil
  then show ?case by simp
next
  case (Cons page pages)
  show ?case
  proof (cases "exec_sql (current_date w) (q page) db")
    case (Inl e)
    with Cons.prems show ?thesis by (auto simp: cur_execute_def)
  next
    case (Inr a)
    obtain rows db' where a: "a = (rows, db')" by (cases a)
    with Inr Cons.prems have "execute_pages q pages db' (emit (Execute (q page)) w) = (r, w')"
      by (simp add: cur_execute_def)
    from Cons.IH [OF this] show ?thesis by simp
  qed
qed

lemma execute_pages_invariant:
  assumes "execute_pages q pages db w = (Inr db', w')" and "P db"
    and step: "\<And>page d rows d'. page \<in> set pages \<Longrightarrow> P d \<Longrightarrow>
        exec_sql (current_date w) (q page) d = Inr (rows, d') \<Longrightarrow> P d'"
  shows "P db'"
  using assms
proof (induction pages arbitrary: db w)
  case Nil
  then show ?case by simp
next
  case (Cons page pages)
  show ?case
  proof (cases "exec_sql (current_date w) (q page) db")
    case (Inl e)
    with Cons.prems show ?thesis by (auto simp: cur_execute_def)
  next
    case (Inr a)
    obtain rows d1 where a: "a = (rows, d1)" by (cases a)
    with Inr Cons.prems(1) have run: "execute_pages q pages d1 (emit (Execute (q page)) w) = (Inr db', w')"
      by (simp add: cur_execute_def)
    have P1: "P d1" using Cons.prems(2,3) Inr a by (metis list.set_intros(1))
    show ?thesis
    proof (rule Cons.IH [OF run P1])
      fix pg d rows' d'
      assume "pg \<in> set pages" "P d"
        "exec_sql (current_date (emit (Execute (q page)) w)) (q pg) d = Inr (rows', d')"
      then show "P d'" using Cons.prems(3) [of pg d rows' d'] by simp
    qed
  qed
qed

lemma run_upsert_store:
  assumes "P (store w)"
    and step: "\<And>page d rows d'. set page \<subseteq> set data \<Longrightarrow> page \<in> set (paginate 100 data) \<Longrightarrow> P d \<Longrightarrow>
        exec_sql (current_date w) (q page) d = Inr (rows, d') \<Longrightarrow> P d'"
  shows "P (store (snd (run_upsert q data w)))"
proof -
  obtain res w' where r: "run_upsert q data w = (res, w')" by (cases "run_upsert q data w")
  let ?w1 = "emit Connect (w\<lparr>conn_refused := tl (conn_refused w)\<rparr>)"
  from r [unfolded run_upsert_def] have "P (store w')"
  proof (cases rule: with_connection_cases)
    case refused
    with assms(1) show ?thesis by simp
  next
    case (raised e w2)
    then have "execute_values q data (store w) ?w1 = (Inl e, w2)"
      by (auto split: prod.splits sum.splits)
    then have "store w2 = store ?w1"
      unfolding execute_values_def by (rule execute_pages_world [THEN conjunct1])
    with raised assms(1) show ?thesis by simp
  next
    case (committed x db' w2)
    then have ev: "execute_pages q (paginate 100 data) (store w) ?w1 = (Inr db', w2)"
      by (auto simp: execute_values_def split: prod.splits sum.splits)
    have "P db'"
    proof (rule execute_pages_invariant [where P = P, OF ev assms(1)])
      fix page d rows d'
      assume "page \<in> set (paginate 100 data)" "P d"
        "exec_sql (current_date ?w1) (q page) d = Inr (rows, d')"
      then show "P d'" using step [of page d rows d'] paginate_subset [of page 100 data] by simp
    qed
    with committed show ?thesis by simp
  qed
  with r show ?thesis by simp
qed

subsection \<open>The row loops\<close>

lemma length_4_conv: "length r = 4 \<longleftrightarrow> (\<exists>a b c d. r = [a, b, c, d])"
  by (auto simp: numeral_eq_Suc length_Suc_conv)

lemma length_3_conv: "length r = 3 \<longleftrightarrow> (\<exists>a b c. r = [a, b, c])"
  by (auto simp: numeral_eq_Suc length_Suc_conv)

lemma product_rows_step:
  "product_rows (r # rs) data w =
     (if length r = 4
      then product_rows rs (data @ [r]) (emit (Log (ProductLine (r ! 0) (r ! 1) (r ! 2) (r ! 3))) w)
      else (Inl ValueError, w))"
proof (cases "length r = 4")
  case True
  then obtain a b c d where "r = [a, b, c, d]" unfolding length_4_conv by blast
  then show ?thesis by simp
next
  case False
  then have "\<not> (\<exists>a b c d. r = [a, b, c, d])" unfolding length_4_conv by blast
  then show ?thesis using False by (auto split: list.splits)
qed

lemma daily_rows_step:
  "daily_rows (r # rs) data w =
     (if length r = 3
      then daily_rows rs (data @ [r]) (emit (Log (DailyLine (r ! 0) (r ! 1) (r ! 2))) w)
      else (Inl ValueError, w))"
proof (cases "length r = 3")
  case True
  then obtain a b c where "r = [a, b, c]" unfolding length_3_conv by blast
  then show ?thesis by simp
next
  case False
  then have "\<not> (\<exists>a b c. r = [a, b, c])" unfolding length_3_conv by blast
  then show ?thesis using False by (auto split: list.splits)
qed

lemma product_rows_world:
  "product_rows rs data w = (res, w') \<Longrightarrow>
     store w' = store w \<and> current_date w' = current_date w \<and> conn_refused w' = conn_refused w"
proof (induction rs arbitrary: data w)
  case Nil
  then show ?case by simp
next
  case (Cons r rs)
  show ?case
  proof (cases "length r = 4")
    case True
    with Cons.prems have "product_rows rs (data @ [r])
        (emit (Log (ProductLine (r ! 0) (r ! 1) (r ! 2) (r ! 3))) w) = (res, w')"
      by (simp add: product_rows_step del: product_rows.simps)
    from Cons.IH [OF this] show ?thesis by simp
  next
    case False
    with Cons.prems have "w' = w" by (simp add: product_rows_step del: product_rows.simps)
    then show ?thesis by simp
  qed
qed

lemma daily_rows_world:
  "daily_rows rs data w = (res, w') \<Longrightarrow>
     store w' = store w \<and> current_date w' = current_date w \<and> conn_refused w' = conn_refused w"
proof (induction rs arbitrary: data w)
  case Nil
  then show ?case by simp
next
  case (Cons r rs)
  show ?case
  proof (cases "length r = 3")
    case True
    with Cons.prems have "daily_rows rs (data @ [r])
        (emit (Log (DailyLine (r ! 0) (r ! 1) (r ! 2))) w) = (res, w')"
      by (simp add: daily_rows_step del: daily_rows.simps)
    from Cons.IH [OF this] show ?thesis by simp
  next
    case False
    with Cons.prems have "w' = w" by (simp add: daily_rows_step del: daily_rows.simps)
    then show ?thesis by simp
  qed
qed

lemma product_rows_lengths:
  "product_rows rs data w = (Inr data', w') \<Longrightarrow> \<forall>r \<in> set data. length r = 4 \<Longrightarrow>
     \<forall>r \<in> set data'. length r = 4"
proof (induction rs arbitrary: data w)
  case Nil
  then show ?case by simp
next
  case (Cons r rs)
  show ?case
  proof (cases "length r = 4")
    case True
    with Cons.prems(1) have run: "product_rows rs (data @ [r])
        (emit (Log (ProductLine (r ! 0) (r ! 1) (r ! 2) (r ! 3))) w) = (Inr data', w')"
      by (simp add: product_rows_step del: product_rows.simps)
    have "\<forall>x \<in> set (data @ [r]). length x = 4" using True Cons.prems(2) by simp
    from Cons.IH [OF run this] show ?thesis .
  next
    case False
    with Cons.prems(1) show ?thesis by (simp add: product_rows_step del: product_rows.simps)
  qed
qed

lemma product_rows_data:
  "product_rows rs data w = (Inr data', w') \<Longrightarrow> data' = data @ rs"
proof (induction rs arbitrary: data w)
  case Nil
  then show ?case by simp
next
  case (Cons r rs)
  show ?case
  proof (cases "length r = 4")
    case True
    with Cons.prems(1) have run: "product_rows rs (data @ [r])
        (emit (Log (ProductLine (r ! 0) (r ! 1) (r ! 2) (r ! 3))) w) = (Inr data', w')"
      by (simp add: product_rows_step del: product_rows.simps)
    from Cons.IH [OF run] show ?thesis by simp
  next
    case False
    with Cons.prems(1) show ?thesis by (simp add: product_rows_step del: product_rows.simps)
  qed
qed

lemma daily_rows_data:
  "daily_rows rs data w = (Inr data', w') \<Longrightarrow> data' = data @ rs"
proof (induction rs arbitrary: data w)
  case Nil
  then show ?case by simp
next
  case (Cons r rs)
  show ?case
  proof (cases "length r = 3")
    case True
    with Cons.prems(1) have run: "daily_rows rs (data @ [r])
        (emit (Log (DailyLine (r ! 0) (r ! 1) (r ! 2))) w) = (Inr data', w')"
      by (simp add: daily_rows_step del: daily_rows.simps)
    from Cons.IH [OF run] show ?thesis by simp
  next
    case False
    with Cons.prems(1) show ?thesis by (simp add: daily_rows_step del: daily_rows.simps)
  qed
qed

lemma product_rows_ok:
  "\<forall>r \<in> set rs. length r = 4 \<Longrightarrow>
     product_rows rs data w =
       (Inr (data @ rs),
        w\<lparr>trace := trace w @ map (\<lambda>r. Log (ProductLine (r ! 0) (r ! 1) (r ! 2) (r ! 3))) rs\<rparr>)"
proof (induction rs arbitrary: data w)
  case Nil
  show ?case by simp
next
  case (Cons r rs)
  then have "length r = 4" and rest: "\<forall>r \<in> set rs. length r = 4" by simp_all
  then show ?case
    by (simp add: product_rows_step Cons.IH [OF rest] emit_def del: product_rows.simps)
qed

lemma daily_rows_ok:
  "\<forall>r \<in> set rs. length r = 3 \<Longrightarrow>
     daily_rows rs data w =
       (Inr (data @ rs),
        w\<lparr>trace := trace w @ map (\<lambda>r. Log (DailyLine (r ! 0) (r ! 1) (r ! 2))) rs\<rparr>)"
proof (induction rs arbitrary: data w)
  case Nil
  show ?case by simp
next
  case (Cons r rs)
  then have "length r = 3" and rest: "\<forall>r \<in> set rs. length r = 3" by simp_all
  then show ?case
    by (simp add: daily_rows_step Cons.IH [OF rest] emit_def del: daily_rows.simps)
qed

subsection \<open>The functions, unfolded\<close>

lemma connected_fields [simp]:
  "store (connected w) = store w" "current_date (connected w) = current_date w"
  "conn_refused (connected w) = tl (conn_refused w)" "trace (connected w) = trace w @ [Connect]"
  by (simp_all add: connected_def)

lemma with_connection_eq:
  "with_connection body w =
     (if refused w then (Inl OperationalError, w\<lparr>conn_refused := tl (conn_refused w)\<rparr>)
      else case body (store w) (connected w) of
             (Inl e, w2) \<Rightarrow> (Inl e, emit Rollback w2)
           | (Inr (x, db'), w2) \<Rightarrow> (Inr x, emit Commit (w2\<lparr>store := db'\<rparr>)))"
  by (simp add: with_connection_def get_db_connection_eq refused_def connected_def)

lemma fetch_query_results_eq:
  "fetch_query_results q w =
     (if refused w then (Inl OperationalError, w\<lparr>conn_refused := tl (conn_refused w)\<rparr>)
      else case exec_sql (current_date w) q (store w) of
             Inl e \<Rightarrow> (Inl e, emit Rollback (emit (Execute q) (connected w)))
           | Inr (rows, db') \<Rightarrow>
               (Inr rows, emit Commit ((emit (Execute q) (connected w))\<lparr>store := db'\<rparr>)))"
  by (simp add: fetch_query_results_def with_connection_eq cur_execute_def split: sum.splits)

lemma create_tables_eq:
  "create_tables w =
     (if refused w then (Inl OperationalError, w\<lparr>conn_refused := tl (conn_refused w)\<rparr>)
      else (Inr (),
            emit Commit ((emit (Execute CreateDailyTrends)
              (emit (Execute CreateProductPerformance) (connected w)))
              \<lparr>store := (store w)\<lparr>
                 product_performance :=
                   Some (case product_performance (store w) of None \<Rightarrow> [] | Some t \<Rightarrow> t),
                 daily_trends :=
                   Some (case daily_trends (store w) of None \<Rightarrow> [] | Some t \<Rightarrow> t)\<rparr>\<rparr>)))"
  by (simp add: create_tables_def with_connection_eq cur_execute_def)

lemma pp_query_lengths: "\<forall>r \<in> set (product_performance_query os). length r = 4"
  unfolding product_performance_query_def by (simp add: split_beta ball_simps)

lemma dt_query_lengths: "\<forall>r \<in> set (daily_trends_query os). length r = 3"
  unfolding daily_trends_query_def by (simp add: split_beta ball_simps del: set_sort)

lemma group_by_empty_iff: "group_by key val rs = [] \<longleftrightarrow> rs = []"
proof
  assume "group_by key val rs = []"
  then have "key ` set rs = {}" using group_by_keys [of key val rs] by simp
  then show "rs = []" by simp
qed (simp add: group_by_Nil)

lemma pp_query_empty_iff: "product_performance_query os = [] \<longleftrightarrow> os = []"
  by (simp add: product_performance_query_def group_by_empty_iff)

lemma sort_key_empty_iff: "sort_key f xs = [] \<longleftrightarrow> xs = []"
  by (simp only: length_0_conv [symmetric] length_sort)

lemma dt_query_empty_iff: "daily_trends_query os = [] \<longleftrightarrow> os = []"
  by (simp add: daily_trends_query_def sort_key_empty_iff group_by_empty_iff)

subsection \<open>The product upsert statement is rejected\<close>

lemma upsert_pp_rejected:
  assumes "page \<noteq> []" "\<forall>r \<in> set page. length r = 4"
  shows "exec_sql today (UpsertProductPerformance page) db =
     (case product_performance db of None \<Rightarrow> Inl UndefinedTable | Some t \<Rightarrow> Inl TooFewExpressions)"
proof -
  obtain r rest where "page = r # rest" using assms(1) by (cases page) auto
  with assms(2) have "check_arity pp_insert_columns page = Inl TooFewExpressions"
    by (simp add: pp_insert_columns_def)
  then show ?thesis by (simp split: option.splits)
qed

lemma execute_values_pp_rejected:
  assumes "data \<noteq> []" "\<forall>r \<in> set data. length r = 4"
  shows "execute_values UpsertProductPerformance data db w =
     (case product_performance db of None \<Rightarrow> Inl UndefinedTable | Some t \<Rightarrow> Inl TooFewExpressions,
      emit (Execute (UpsertProductPerformance (take 100 data))) w)"
proof -
  have "take 100 data \<noteq> []" using assms(1) by simp
  moreover have "\<forall>r \<in> set (take 100 data). length r = 4"
    using assms(2) by (auto dest: in_set_takeD)
  ultimately have "exec_sql (current_date w) (UpsertProductPerformance (take 100 data)) db =
     (case product_performance db of None \<Rightarrow> Inl UndefinedTable | Some t \<Rightarrow> Inl TooFewExpressions)"
    by (rule upsert_pp_rejected)
  then show ?thesis
    using assms(1)
    by (simp add: execute_values_def paginate_nonempty cur_execute_def split: option.splits)
qed

lemma run_upsert_pp_rejected:
  assumes "data \<noteq> []" "\<forall>r \<in> set data. length r = 4"
  shows "run_upsert UpsertProductPerformance data w =
     (if refused w then (Inl OperationalError, w\<lparr>conn_refused := tl (conn_refused w)\<rparr>)
      else (case product_performance (store w) of
              None \<Rightarrow> Inl UndefinedTable | Some t \<Rightarrow> Inl TooFewExpressions,
            emit Rollback (emit (Execute (UpsertProductPerformance (take 100 data))) (connected w))))"
  by (simp add: run_upsert_def with_connection_eq execute_values_pp_rejected [OF assms]
      split: option.splits)

subsection \<open>The product step never writes\<close>

lemma fetch_select_store:
  "q = SelectProductPerformance \<or> q = SelectDailyTrends \<Longrightarrow>
     store (snd (fetch_query_results q w)) = store w"
  by (auto simp: fetch_query_results_eq split: option.splits)

lemma upsert_product_performance_store:
  "store (snd (upsert_product_performance w)) = store w"
proof -
  obtain r1 w1 where f: "fetch_query_results SelectProductPerformance w = (r1, w1)"
    by (cases "fetch_query_results SelectProductPerformance w")
  have s1: "store w1 = store w"
    using fetch_select_store [of SelectProductPerformance w] f by simp
  show ?thesis
  proof (cases r1)
    case (Inl e)
    with f s1 show ?thesis by (simp add: upsert_product_performance_def)
  next
    case (Inr results)
    obtain r2 w2 where p: "product_rows results [] (emit (Log ProductReportHeader) w1) = (r2, w2)"
      by (cases "product_rows results [] (emit (Log ProductReportHeader) w1)")
    have s2: "store w2 = store w" using product_rows_world [OF p] s1 by simp
    show ?thesis
    proof (cases r2)
      case (Inl e)
      with f Inr p s2 show ?thesis by (simp add: upsert_product_performance_def)
    next
      case data: (Inr data)
      have len: "\<forall>r \<in> set data. length r = 4"
        using product_rows_lengths [of results "[]" _ data w2] p data by simp
      show ?thesis
      proof (cases "data = []")
        case True
        with f Inr p data s2 show ?thesis by (simp add: upsert_product_performance_def)
      next
        case False
        have "store (snd (run_upsert UpsertProductPerformance data w2)) = store w2"
          by (simp add: run_upsert_pp_rejected [OF False len] split: option.splits)
        with f Inr p data s2 False show ?thesis by (simp add: upsert_product_performance_def)
      qed
    qed
  qed
qed

lemma upsert_product_performance_rejected_gen:
  assumes "order_tbl (store w) = Some os" "os \<noteq> []" "product_performance (store w) = Some tbl"
    "conn_refused w = []"
  shows "fst (upsert_product_performance w) = Inl TooFewExpressions"
proof -
  have nr: "\<not> refused w" using assms(4) by (simp add: refused_def)
  let ?w1 = "emit Commit ((emit (Execute SelectProductPerformance) (connected w))\<lparr>store := store w\<rparr>)"
  have f: "fetch_query_results SelectProductPerformance w = (Inr (product_performance_query os), ?w1)"
    using nr assms(1) by (simp add: fetch_query_results_eq)
  let ?data = "product_performance_query os"
  have ne: "?data \<noteq> []" using assms(2) by (simp add: pp_query_empty_iff)
  obtain w2 where p: "product_rows ?data [] (emit (Log ProductReportHeader) ?w1) = (Inr ?data, w2)"
    using product_rows_ok [OF pp_query_lengths, of os "[]"] by simp
  have w2: "store w2 = store w" "conn_refused w2 = []"
    using product_rows_world [OF p] assms(4) by simp_all
  then have nr2: "\<not> refused w2" by (simp add: refused_def)
  have "fst (run_upsert UpsertProductPerformance ?data w2) = Inl TooFewExpressions"
    using nr2 w2 assms(3) by (simp add: run_upsert_pp_rejected [OF ne pp_query_lengths])
  with f p ne show ?thesis by (simp add: upsert_product_performance_def)
qed

section \<open>The claims\<close>

text \<open>
  C1. The claim: when at least one product group exists, the product step performs one
  batched upsert that inserts (product, order\_count, total\_sales, avg\_sales, today's date)
  for every group and overwrites the four columns on conflict. The code names five target
  columns in the INSERT (line 81) and appends tuples of four values (line 77). What the
  code does instead: whenever the source relation has a row, the destination relation
  exists and the connections are accepted, the statement is rejected for having more
  target columns than expressions, the step raises, and the committed database is what
  it was.
\<close>

theorem upsert_product_performance_rejected:
  assumes "order_tbl (store w) = Some os" and "os \<noteq> []"
    and "product_performance (store w) = Some tbl" and "conn_refused w = []"
  shows "fst (upsert_product_performance w) = Inl TooFewExpressions \<and>
         store (snd (upsert_product_performance w)) = store w"
  using upsert_product_performance_rejected_gen [OF assms] upsert_product_performance_store [of w]
  by simp

theorem upsert_product_performance_rejected_witness:
  "fst (upsert_product_performance one_order_world) = Inl TooFewExpressions \<and>
   product_performance (store (snd (upsert_product_performance one_order_world))) = Some []"
  using upsert_product_performance_rejected
    [of one_order_world "[\<lparr>product = ''A'', amount = 10, created_at = ((2025, 1, 1), 0)\<rparr>]" "[]"]
  by (simp add: one_order_world_def)

lemma etl_pp_failure:
  assumes "order_tbl (store w) = Some os" "os \<noteq> []" "conn_refused w = []"
  shows "fst (extract_transform_load w) = Inl TooFewExpressions \<and>
     store (snd (extract_transform_load w)) =
       (store w)\<lparr>product_performance :=
                    Some (case product_performance (store w) of None \<Rightarrow> [] | Some t \<Rightarrow> t),
                  daily_trends :=
                    Some (case daily_trends (store w) of None \<Rightarrow> [] | Some t \<Rightarrow> t)\<rparr>"
proof -
  let ?w0 = "emit (Log EtlStarting) w"
  have nr: "\<not> refused ?w0" using assms(3) by (simp add: refused_def)
  obtain w1 where c: "create_tables ?w0 = (Inr (), w1)"
    and s1: "store w1 = (store w)\<lparr>product_performance :=
                    Some (case product_performance (store w) of None \<Rightarrow> [] | Some t \<Rightarrow> t),
                  daily_trends :=
                    Some (case daily_trends (store w) of None \<Rightarrow> [] | Some t \<Rightarrow> t)\<rparr>"
    and r1: "conn_refused w1 = []"
    using nr assms(3) by (simp add: create_tables_eq)
  have o1: "order_tbl (store w1) = Some os" using s1 assms(1) by simp
  have p1: "product_performance (store w1) =
      Some (case product_performance (store w) of None \<Rightarrow> [] | Some t \<Rightarrow> t)"
    using s1 by simp
  have f: "fst (upsert_product_performance w1) = Inl TooFewExpressions"
    by (rule upsert_product_performance_rejected_gen [OF o1 assms(2) p1 r1])
  have s: "store (snd (upsert_product_performance w1)) = store w1"
    by (rule upsert_product_performance_store)
  obtain r2 w2 where u: "upsert_product_performance w1 = (r2, w2)"
    by (cases "upsert_product_performance w1")
  with f s have "r2 = Inl TooFewExpressions" "store w2 = store w1" by simp_all
  with c u s1 show ?thesis by (simp add: extract_transform_load_def)
qed

lemma product_performance_query_groups:
  "set (product_performance_query os) =
     (\<lambda>p. [Text p, Bigint (int (length (filter (\<lambda>r. product r = p) os))),
            Numeric (sum_list (map amount (filter (\<lambda>r. product r = p) os))),
            Numeric (sum_list (map amount (filter (\<lambda>r. product r = p) os))
                     / of_nat (length (filter (\<lambda>r. product r = p) os)))]) ` product ` set os"
  (is "?L = ?f ` _")
proof (rule set_eqI)
  fix row
  show "row \<in> ?L \<longleftrightarrow> row \<in> ?f ` product ` set os"
  proof
    assume "row \<in> ?L"
    then obtain p n s where g: "(p, n, s) \<in> set (group_by product amount os)"
      and row: "row = [Text p, Bigint (int n), Numeric s, Numeric (s / of_nat n)]"
      unfolding product_performance_query_def by auto
    from group_by_member [OF g] row show "row \<in> ?f ` product ` set os" by auto
  next
    assume "row \<in> ?f ` product ` set os"
    then obtain p where p: "p \<in> product ` set os" and row: "row = ?f p" by auto
    from p have "p \<in> fst ` set (group_by product amount os)" by (simp add: group_by_keys)
    then obtain n s where g: "(p, n, s) \<in> set (group_by product amount os)" by auto
    from group_by_member [OF g] row
    have "row = (\<lambda>(p, n, s). [Text p, Bigint (int n), Numeric s, Numeric (s / of_nat n)]) (p, n, s)"
      by simp
    with g show "row \<in> ?L" unfolding product_performance_query_def
      by (metis (no_types, lifting) image_eqI list.set_map)
  qed
qed

lemma product_performance_query_keys:
  "distinct (map (\<lambda>row. row ! 0) (product_performance_query os))"
proof -
  have "map (\<lambda>row. row ! 0) (product_performance_query os) = map (\<lambda>g. Text (fst g)) (group_by product amount os)"
    unfolding product_performance_query_def by (simp add: split_beta comp_def)
  also have "\<dots> = map Text (map fst (group_by product amount os))" by (simp add: comp_def)
  finally show ?thesis
    using group_by_distinct [of product amount os] by (simp add: distinct_map inj_on_def del: map_map)
qed

text \<open>
  C2. The claim: the product step groups the orders by product, computes count, sum and
  mean per group without any date filter, and for the orders (A,10), (A,20), (B,5) the
  rows of product\_performance are exactly A: 2, 30, 15 and B: 1, 5, 5. The grouping is as
  claimed (\<open>product_performance_query_groups\<close>, \<open>product_performance_query_keys\<close>),
  and on the example the query returns the two groups; but the run raises in the product
  upsert and product\_performance holds no row.
\<close>

theorem product_rows_not_written:
  "product_performance_query abc_orders =
     [[Text ''A'', Bigint 2, Numeric 30, Numeric 15], [Text ''B'', Bigint 1, Numeric 5, Numeric 5]] \<and>
   fst (extract_transform_load abc_world) = Inl TooFewExpressions \<and>
   product_performance (store (snd (extract_transform_load abc_world))) = Some []"
proof -
  have q: "product_performance_query abc_orders =
     [[Text ''A'', Bigint 2, Numeric 30, Numeric 15], [Text ''B'', Bigint 1, Numeric 5, Numeric 5]]"
    by (simp add: product_performance_query_def group_by_def abc_orders_def)
  have "order_tbl (store abc_world) = Some abc_orders" "abc_orders \<noteq> []" "conn_refused abc_world = []"
    by (simp_all add: abc_world_def abc_orders_def)
  from etl_pp_failure [OF this] q show ?thesis by (simp add: abc_world_def)
qed

subsection \<open>The daily report\<close>

lemma sort_key_fst_keys:
  assumes "distinct (map fst gs)"
  shows "map fst (sort_key fst gs) = sort (remdups (map fst gs))"
proof (rule sorted_distinct_set_unique)
  show "sorted (map fst (sort_key fst gs))" by (rule sorted_sort_key)
  have "distinct gs" "inj_on fst (set gs)" using assms by (simp_all add: distinct_map)
  then show "distinct (map fst (sort_key fst gs))" by (simp add: distinct_map)
  show "sorted (sort (remdups (map fst gs)))" by simp
  show "distinct (sort (remdups (map fst gs)))" by simp
  show "set (map fst (sort_key fst gs)) = set (sort (remdups (map fst gs)))" by simp
qed

lemma daily_trends_query_spec: "daily_trends_query os = daily_trends_spec os"
proof -
  let ?key = "\<lambda>r. DATE (created_at r)"
  let ?gs = "group_by ?key amount os"
  let ?ss = "sort_key fst ?gs"
  let ?F = "\<lambda>d. (d, length (filter (\<lambda>r. ?key r = d) os), sum_list (map amount (filter (\<lambda>r. ?key r = d) os)))"
  have keys: "map fst ?ss = sort (remdups (map ?key os))"
  proof -
    have "map fst ?ss = sort (remdups (map fst ?gs))"
      by (rule sort_key_fst_keys) (rule group_by_distinct)
    moreover have "set (remdups (map fst ?gs)) = set (remdups (map ?key os))"
      using group_by_keys [of ?key amount os] by simp
    then have "sort (remdups (map fst ?gs)) = sort (remdups (map ?key os))"
      by (intro sorted_distinct_set_unique) simp_all
    ultimately show ?thesis by simp
  qed
  have "\<And>g. g \<in> set ?ss \<Longrightarrow> g = ?F (fst g)"
  proof -
    fix g assume "g \<in> set ?ss"
    then have "g \<in> set ?gs" by simp
    then have "(fst g, fst (snd g), snd (snd g)) \<in> set ?gs" by simp
    from group_by_member [OF this] show "g = ?F (fst g)" by (cases g) auto
  qed
  then have "map (\<lambda>g. ?F (fst g)) ?ss = ?ss" by (intro map_idI) simp
  then have "?ss = map ?F (map fst ?ss)" by (simp add: comp_def)
  then have "?ss = map ?F (sort (remdups (map ?key os)))" by (simp only: keys)
  then have "daily_trends_query os =
      map (\<lambda>(d, n, s). [Date d, Bigint (int n), Numeric s]) (map ?F (sort (remdups (map ?key os))))"
    unfolding daily_trends_query_def by (rule arg_cong)
  then show ?thesis by (simp add: daily_trends_spec_def comp_def)
qed

lemma two_days_query:
  "daily_trends_query two_days_orders =
     [[Date (2025, 1, 1), Bigint 2, Numeric 15], [Date (2025, 1, 2), Bigint 1, Numeric 7]]"
  by (simp add: daily_trends_query_def group_by_def two_days_orders_def DATE_def)

lemma execute_pages_trace:
  "execute_pages q pages db w = (r, w') \<Longrightarrow>
     \<exists>k \<le> length pages. trace w' = trace w @ map (\<lambda>p. Execute (q p)) (take k pages) \<and>
       ((\<exists>d. r = Inr d) \<longrightarrow> k = length pages) \<and> (pages \<noteq> [] \<longrightarrow> 0 < k)"
proof (induction pages arbitrary: db w)
  case Nil
  then show ?case by simp
next
  case (Cons page pages)
  show ?case
  proof (cases "exec_sql (current_date w) (q page) db")
    case (Inl e)
    with Cons.prems have "r = Inl e" "w' = emit (Execute (q page)) w"
      by (auto simp: cur_execute_def)
    then have "trace w' = trace w @ map (\<lambda>p. Execute (q p)) (take 1 (page # pages))" by simp
    with \<open>r = Inl e\<close> show ?thesis
      by (intro exI [of _ 1]) simp
  next
    case (Inr a)
    obtain rows d1 where a: "a = (rows, d1)" by (cases a)
    with Inr Cons.prems have "execute_pages q pages d1 (emit (Execute (q page)) w) = (r, w')"
      by (simp add: cur_execute_def)
    from Cons.IH [OF this] obtain k where k: "k \<le> length pages"
      "trace w' = trace (emit (Execute (q page)) w) @ map (\<lambda>p. Execute (q p)) (take k pages)"
      "(\<exists>d. r = Inr d) \<longrightarrow> k = length pages" by blast
    then show ?thesis by (intro exI [of _ "Suc k"]) simp
  qed
qed

lemma paginate_small: "xs \<noteq> [] \<Longrightarrow> length xs \<le> n \<Longrightarrow> paginate n xs = [xs]"
proof -
  assume a: "xs \<noteq> []" "length xs \<le> n"
  then have "0 < n" by (cases xs) auto
  with a show ?thesis by (simp add: paginate_nonempty)
qed

lemma two_days_statement:
  "daily_trends db = Some [] \<Longrightarrow>
   exec_sql today (UpsertDailyTrends two_days_rows) db =
     Inr ([], db\<lparr>daily_trends :=
       Some [\<lparr>order_date = (2025, 1, 1), daily_orders = 2, daily_sales = 15\<rparr>,
             \<lparr>order_date = (2025, 1, 2), daily_orders = 1, daily_sales = 7\<rparr>]\<rparr>)"
  by (simp add: two_days_rows_def dt_insert_columns_def dt_values_row_def dt_do_update_def)

lemma run_upsert_one_page:
  assumes "\<not> refused w" "data \<noteq> []" "length data \<le> 100"
    "exec_sql (current_date w) (q data) (store w) = Inr (rows, db')"
  shows "run_upsert q data w =
     (Inr (), emit Commit ((emit (Execute (q data)) (connected w))\<lparr>store := db'\<rparr>))"
  using assms
  by (simp add: run_upsert_def with_connection_eq execute_values_def paginate_small cur_execute_def)

lemma upsert_daily_trends_one_page:
  assumes "\<not> refused w" "conn_refused w = []" "order_tbl (store w) = Some os" "os \<noteq> []"
    "length (daily_trends_query os) \<le> 100"
    "exec_sql (current_date w) (UpsertDailyTrends (daily_trends_query os)) (store w) = Inr (rows, db')"
  shows "fst (upsert_daily_trends w) = Inr () \<and> store (snd (upsert_daily_trends w)) = db' \<and>
     trace (snd (upsert_daily_trends w)) =
       trace w @ [Connect, Execute SelectDailyTrends, Commit, Log DailyReportHeader] @
       map (\<lambda>r. Log (DailyLine (r ! 0) (r ! 1) (r ! 2))) (daily_trends_query os) @
       [Connect, Execute (UpsertDailyTrends (daily_trends_query os)), Commit]"
proof -
  let ?rows = "daily_trends_query os"
  define w1 where
    "w1 = emit Commit ((emit (Execute SelectDailyTrends) (connected w))\<lparr>store := store w\<rparr>)"
  have f: "fetch_query_results SelectDailyTrends w = (Inr ?rows, w1)"
    using assms(1,3) by (simp add: fetch_query_results_eq w1_def)
  have w1: "store w1 = store w" "current_date w1 = current_date w" "conn_refused w1 = []"
      "trace w1 = trace w @ [Connect, Execute SelectDailyTrends, Commit]"
    using assms(2) by (simp_all add: w1_def)
  define w2 where
    "w2 = (emit (Log DailyReportHeader) w1)\<lparr>trace := trace (emit (Log DailyReportHeader) w1) @
       map (\<lambda>r. Log (DailyLine (r ! 0) (r ! 1) (r ! 2))) ?rows\<rparr>"
  have d: "daily_rows ?rows [] (emit (Log DailyReportHeader) w1) = (Inr ?rows, w2)"
    using daily_rows_ok [OF dt_query_lengths, of os "[]" "emit (Log DailyReportHeader) w1"]
    by (simp add: w2_def)
  have w2: "store w2 = store w" "current_date w2 = current_date w" "conn_refused w2 = []"
      "trace w2 = trace w @ [Connect, Execute SelectDailyTrends, Commit, Log DailyReportHeader] @
         map (\<lambda>r. Log (DailyLine (r ! 0) (r ! 1) (r ! 2))) ?rows"
    using w1 by (simp_all add: w2_def)
  have ne: "?rows \<noteq> []" using assms(4) by (simp add: dt_query_empty_iff)
  have nr2: "\<not> refused w2" using w2 by (simp add: refused_def)
  have ex: "exec_sql (current_date w2) (UpsertDailyTrends ?rows) (store w2) = Inr (rows, db')"
    using assms(6) w2 by simp
  have u: "run_upsert UpsertDailyTrends ?rows w2 =
     (Inr (), emit Commit ((emit (Execute (UpsertDailyTrends ?rows)) (connected w2))\<lparr>store := db'\<rparr>))"
    by (rule run_upsert_one_page [where q = UpsertDailyTrends, OF nr2 ne assms(5) ex])
  have "upsert_daily_trends w =
     (Inr (), emit Commit ((emit (Execute (UpsertDailyTrends ?rows)) (connected w2))\<lparr>store := db'\<rparr>))"
    by (simp add: upsert_daily_trends_def f d ne u)
  then show ?thesis using w2 by simp
qed

lemma two_days_upsert:
  "fst (upsert_daily_trends two_days_world) = Inr () \<and>
   daily_trends (store (snd (upsert_daily_trends two_days_world))) =
     Some [\<lparr>order_date = (2025, 1, 1), daily_orders = 2, daily_sales = 15\<rparr>,
           \<lparr>order_date = (2025, 1, 2), daily_orders = 1, daily_sales = 7\<rparr>]"
proof -
  have q: "daily_trends_query two_days_orders = two_days_rows"
    by (simp only: two_days_query two_days_rows_def)
  have a: "\<not> refused two_days_world" "conn_refused two_days_world = []"
    "order_tbl (store two_days_world) = Some two_days_orders" "two_days_orders \<noteq> []"
    by (simp_all add: refused_def two_days_world_def two_days_orders_def)
  have l: "length (daily_trends_query two_days_orders) \<le> 100"
    by (simp add: q two_days_rows_def)
  have "daily_trends (store two_days_world) = Some []" by (simp add: two_days_world_def)
  from two_days_statement [OF this, of "current_date two_days_world"]
  have e: "exec_sql (current_date two_days_world) (UpsertDailyTrends (daily_trends_query two_days_orders))
      (store two_days_world) = Inr ([], (store two_days_world)\<lparr>daily_trends :=
       Some [\<lparr>order_date = (2025, 1, 1), daily_orders = 2, daily_sales = 15\<rparr>,
             \<lparr>order_date = (2025, 1, 2), daily_orders = 1, daily_sales = 7\<rparr>]\<rparr>)"
    by (simp only: q)
  from upsert_daily_trends_one_page [OF a l e] show ?thesis by simp
qed

lemma run_upsert_trace_head:
  assumes "\<not> refused w" "data \<noteq> []"
  shows "\<exists>rest. trace (snd (run_upsert q data w)) =
     trace w @ Connect # Execute (q (take 100 data)) # rest"
proof -
  let ?pages = "take 100 data # paginate 100 (drop 100 data)"
  obtain r w' where e: "execute_pages q ?pages (store w) (connected w) = (r, w')"
    by (cases "execute_pages q ?pages (store w) (connected w)")
  from execute_pages_trace [OF e] obtain k where k: "0 < k"
    "trace w' = trace (connected w) @ map (\<lambda>p. Execute (q p)) (take k ?pages)" by auto
  then obtain j where "k = Suc j" by (cases k) auto
  with k have t: "trace w' = trace w @ Connect # Execute (q (take 100 data)) #
      map (\<lambda>p. Execute (q p)) (take j (paginate 100 (drop 100 data)))" by simp
  have "run_upsert q data w =
      (case r of Inl e \<Rightarrow> (Inl e, emit Rollback w') | Inr db' \<Rightarrow> (Inr (), emit Commit (w'\<lparr>store := db'\<rparr>)))"
    using assms e
    by (simp add: run_upsert_def with_connection_eq execute_values_def paginate_nonempty
        split: sum.splits)
  with t show ?thesis by (cases r) simp_all
qed

lemma upsert_daily_trends_trace:
  assumes "order_tbl (store w) = Some os" "conn_refused w = []"
  shows "\<exists>rest. trace (snd (upsert_daily_trends w)) =
       trace w @ [Connect, Execute SelectDailyTrends, Commit, Log DailyReportHeader] @
       map (\<lambda>r. Log (DailyLine (r ! 0) (r ! 1) (r ! 2))) (daily_trends_query os) @ rest \<and>
     (os \<noteq> [] \<longrightarrow>
        (\<exists>rest'. rest = Connect # Execute (UpsertDailyTrends (take 100 (daily_trends_query os))) # rest'))"
proof -
  let ?rows = "daily_trends_query os"
  have nr: "\<not> refused w" using assms(2) by (simp add: refused_def)
  define w1 where
    "w1 = emit Commit ((emit (Execute SelectDailyTrends) (connected w))\<lparr>store := store w\<rparr>)"
  have f: "fetch_query_results SelectDailyTrends w = (Inr ?rows, w1)"
    using nr assms(1) by (simp add: fetch_query_results_eq w1_def)
  have w1: "conn_refused w1 = []"
      "trace w1 = trace w @ [Connect, Execute SelectDailyTrends, Commit]"
    using assms(2) by (simp_all add: w1_def)
  define w2 where
    "w2 = (emit (Log DailyReportHeader) w1)\<lparr>trace := trace (emit (Log DailyReportHeader) w1) @
       map (\<lambda>r. Log (DailyLine (r ! 0) (r ! 1) (r ! 2))) ?rows\<rparr>"
  have d: "daily_rows ?rows [] (emit (Log DailyReportHeader) w1) = (Inr ?rows, w2)"
    using daily_rows_ok [OF dt_query_lengths, of os "[]" "emit (Log DailyReportHeader) w1"]
    by (simp add: w2_def)
  have w2: "conn_refused w2 = []"
      "trace w2 = trace w @ [Connect, Execute SelectDailyTrends, Commit, Log DailyReportHeader] @
         map (\<lambda>r. Log (DailyLine (r ! 0) (r ! 1) (r ! 2))) ?rows"
    using w1 by (simp_all add: w2_def)
  show ?thesis
  proof (cases "os = []")
    case True
    then have "?rows = []" by (simp add: dt_query_empty_iff)
    then have "upsert_daily_trends w = (Inr (), w2)"
      using f d by (simp add: upsert_daily_trends_def)
    with w2 True show ?thesis by simp
  next
    case False
    then have ne: "?rows \<noteq> []" by (simp add: dt_query_empty_iff)
    have nr2: "\<not> refused w2" using w2 by (simp add: refused_def)
    from run_upsert_trace_head [OF nr2 ne, of UpsertDailyTrends] obtain rest where
      "trace (snd (run_upsert UpsertDailyTrends ?rows w2)) =
         trace w2 @ Connect # Execute (UpsertDailyTrends (take 100 ?rows)) # rest" by blast
    moreover have "upsert_daily_trends w = run_upsert UpsertDailyTrends ?rows w2"
      using f d ne by (simp add: upsert_daily_trends_def)
    ultimately show ?thesis using w2 by simp
  qed
qed

subsection \<open>The schema step\<close>

lemma create_tables_accepted:
  assumes "conn_refused w = []"
  shows "fst (create_tables w) = Inr ()"
    and "conn_refused (snd (create_tables w)) = []"
    and "store (snd (create_tables w)) =
      (store w)\<lparr>product_performance :=
                   Some (case product_performance (store w) of None \<Rightarrow> [] | Some t \<Rightarrow> t),
                 daily_trends :=
                   Some (case daily_trends (store w) of None \<Rightarrow> [] | Some t \<Rightarrow> t)\<rparr>"
  using assms by (simp_all add: create_tables_eq refused_def)

text \<open>
  C8. \<open>create_tables\<close> is idempotent: with the connections accepted, running it twice
  raises nothing and leaves the database of the first run; each destination relation is
  created empty when it is absent and kept, rows included, when it exists.
\<close>

theorem create_tables_idempotent:
  assumes "conn_refused w = []"
  shows "fst (create_tables w) = Inr () \<and>
    fst (create_tables (snd (create_tables w))) = Inr () \<and>
    store (snd (create_tables (snd (create_tables w)))) = store (snd (create_tables w)) \<and>
    product_performance (store (snd (create_tables w))) =
      Some (case product_performance (store w) of None \<Rightarrow> [] | Some t \<Rightarrow> t) \<and>
    daily_trends (store (snd (create_tables w))) =
      Some (case daily_trends (store w) of None \<Rightarrow> [] | Some t \<Rightarrow> t) \<and>
    order_tbl (store (snd (create_tables w))) = order_tbl (store w)"
proof -
  note first = create_tables_accepted [OF assms]
  note second = create_tables_accepted [OF first(2)]
  show ?thesis by (simp add: first second)
qed

theorem create_tables_idempotent_witness:
  "conn_refused abc_world = [] \<and>
   fst (create_tables (snd (create_tables abc_world))) = Inr () \<and>
   store (snd (create_tables (snd (create_tables abc_world)))) =
     \<lparr>order_tbl = Some abc_orders, product_performance = Some [], daily_trends = Some []\<rparr> \<and>
   store (snd (create_tables abc_world)) =
     \<lparr>order_tbl = Some abc_orders, product_performance = Some [], daily_trends = Some []\<rparr>"
proof -
  have a: "conn_refused abc_world = []" by (simp add: abc_world_def)
  have "store (snd (create_tables abc_world)) =
     \<lparr>order_tbl = Some abc_orders, product_performance = Some [], daily_trends = Some []\<rparr>"
    by (simp add: create_tables_accepted(3) [OF a]) (simp add: abc_world_def)
  with create_tables_idempotent [OF a] a show ?thesis by simp
qed

subsection \<open>What a run does to the committed database\<close>

lemma exec_sql_upsert_dt:
  "exec_sql today (UpsertDailyTrends page) d = Inr (rows, d') \<Longrightarrow>
     \<exists>tbl rs tbl'. daily_trends d = Some tbl \<and> values_rows dt_values_row page = Inr rs \<and>
       on_conflict_do_update order_date dt_do_update rs [] tbl = Inr tbl' \<and>
       d' = d\<lparr>daily_trends := Some tbl'\<rparr>"
  by (auto split: option.splits sum.splits)

lemma upsert_daily_trends_store:
  assumes "P (store w)"
    and step: "\<And>os page d rows d'. order_tbl (store w) = Some os \<Longrightarrow>
        set page \<subseteq> set (daily_trends_query os) \<Longrightarrow> P d \<Longrightarrow>
        exec_sql (current_date w) (UpsertDailyTrends page) d = Inr (rows, d') \<Longrightarrow> P d'"
  shows "P (store (snd (upsert_daily_trends w)))"
proof (cases "refused w \<or> order_tbl (store w) = None")
  case True
  then have "store (snd (upsert_daily_trends w)) = store w"
    by (auto simp: upsert_daily_trends_def fetch_query_results_eq)
  with assms(1) show ?thesis by simp
next
  case False
  then obtain os where os: "order_tbl (store w) = Some os" and nr: "\<not> refused w" by auto
  let ?rows = "daily_trends_query os"
  define w1 where
    "w1 = emit Commit ((emit (Execute SelectDailyTrends) (connected w))\<lparr>store := store w\<rparr>)"
  have f: "fetch_query_results SelectDailyTrends w = (Inr ?rows, w1)"
    using nr os by (simp add: fetch_query_results_eq w1_def)
  define w2 where
    "w2 = (emit (Log DailyReportHeader) w1)\<lparr>trace := trace (emit (Log DailyReportHeader) w1) @
       map (\<lambda>r. Log (DailyLine (r ! 0) (r ! 1) (r ! 2))) ?rows\<rparr>"
  have d: "daily_rows ?rows [] (emit (Log DailyReportHeader) w1) = (Inr ?rows, w2)"
    using daily_rows_ok [OF dt_query_lengths, of os "[]" "emit (Log DailyReportHeader) w1"]
    by (simp add: w2_def)
  have w2: "store w2 = store w" "current_date w2 = current_date w"
    by (simp_all add: w2_def w1_def)
  show ?thesis
  proof (cases "?rows = []")
    case True
    then have "upsert_daily_trends w = (Inr (), w2)"
      using f d by (simp add: upsert_daily_trends_def)
    with w2 assms(1) show ?thesis by simp
  next
    case False
    then have u: "upsert_daily_trends w = run_upsert UpsertDailyTrends ?rows w2"
      using f d by (simp add: upsert_daily_trends_def)
    have "P (store (snd (run_upsert UpsertDailyTrends ?rows w2)))"
    proof (rule run_upsert_store [where P = P])
      show "P (store w2)" using w2 assms(1) by simp
    next
      fix page d rows d'
      assume "set page \<subseteq> set ?rows" "P d"
        "exec_sql (current_date w2) (UpsertDailyTrends page) d = Inr (rows, d')"
      then show "P d'" using step [OF os, of page d rows d'] w2 by simp
    qed
    with u show ?thesis by simp
  qed
qed

lemma create_tables_store:
  "store (snd (create_tables w)) = store w \<or>
   store (snd (create_tables w)) =
      (store w)\<lparr>product_performance :=
                   Some (case product_performance (store w) of None \<Rightarrow> [] | Some t \<Rightarrow> t),
                 daily_trends :=
                   Some (case daily_trends (store w) of None \<Rightarrow> [] | Some t \<Rightarrow> t)\<rparr>"
  by (simp add: create_tables_eq)

lemma create_tables_world:
  "current_date (snd (create_tables w)) = current_date w"
  by (simp add: create_tables_eq)

lemma upsert_product_performance_date:
  "current_date (snd (upsert_product_performance w)) = current_date w"
proof -
  obtain r1 w1 where f: "fetch_query_results SelectProductPerformance w = (r1, w1)"
    by (cases "fetch_query_results SelectProductPerformance w")
  then have c1: "current_date w1 = current_date w"
    by (auto simp: fetch_query_results_eq split: if_splits sum.splits)
  show ?thesis
  proof (cases r1)
    case (Inl e)
    with f c1 show ?thesis by (simp add: upsert_product_performance_def)
  next
    case (Inr results)
    obtain r2 w2 where p: "product_rows results [] (emit (Log ProductReportHeader) w1) = (r2, w2)"
      by (cases "product_rows results [] (emit (Log ProductReportHeader) w1)")
    have c2: "current_date w2 = current_date w" using product_rows_world [OF p] c1 by simp
    show ?thesis
    proof (cases r2)
      case (Inl e)
      with f Inr p c2 show ?thesis by (simp add: upsert_product_performance_def)
    next
      case data: (Inr data)
      have len: "\<forall>r \<in> set data. length r = 4"
        using product_rows_lengths [of results "[]" _ data w2] p data by simp
      show ?thesis
      proof (cases "data = []")
        case True
        with f Inr p data c2 show ?thesis by (simp add: upsert_product_performance_def)
      next
        case False
        have "current_date (snd (run_upsert UpsertProductPerformance data w2)) = current_date w2"
          by (simp add: run_upsert_pp_rejected [OF False len] split: option.splits)
        with f Inr p data c2 False show ?thesis by (simp add: upsert_product_performance_def)
      qed
    qed
  qed
qed

lemma extract_transform_load_store:
  assumes "P (store w)"
    and create: "P ((store w)\<lparr>product_performance :=
                   Some (case product_performance (store w) of None \<Rightarrow> [] | Some t \<Rightarrow> t),
                 daily_trends :=
                   Some (case daily_trends (store w) of None \<Rightarrow> [] | Some t \<Rightarrow> t)\<rparr>)"
    and step: "\<And>os page d rows d'. order_tbl (store w) = Some os \<Longrightarrow>
        set page \<subseteq> set (daily_trends_query os) \<Longrightarrow> P d \<Longrightarrow>
        exec_sql (current_date w) (UpsertDailyTrends page) d = Inr (rows, d') \<Longrightarrow> P d'"
  shows "P (store (snd (extract_transform_load w)))"
proof -
  let ?w0 = "emit (Log EtlStarting) w"
  obtain r1 w1 where c: "create_tables ?w0 = (r1, w1)" by (cases "create_tables ?w0")
  have P1: "P (store w1)" using create_tables_store [of ?w0] c assms(1) create by auto
  have o1: "order_tbl (store w1) = order_tbl (store w)"
    using create_tables_store [of ?w0] c by auto
  have d1: "current_date w1 = current_date w" using create_tables_world [of ?w0] c by simp
  obtain r2 w2 where u: "upsert_product_performance w1 = (r2, w2)"
    by (cases "upsert_product_performance w1")
  have s2: "store w2 = store w1" using upsert_product_performance_store [of w1] u by simp
  have d2: "current_date w2 = current_date w" using upsert_product_performance_date [of w1] u d1 by simp
  have P3: "P (store (snd (upsert_daily_trends w2)))"
  proof (rule upsert_daily_trends_store [where P = P])
    show "P (store w2)" using s2 P1 by simp
  next
    fix os page d rows d'
    assume "order_tbl (store w2) = Some os" "set page \<subseteq> set (daily_trends_query os)" "P d"
      "exec_sql (current_date w2) (UpsertDailyTrends page) d = Inr (rows, d')"
    then show "P d'" using step [of os page d rows d'] s2 o1 d2 by simp
  qed
  obtain r3 w3 where v: "upsert_daily_trends w2 = (r3, w3)" by (cases "upsert_daily_trends w2")
  with P3 have P3': "P (store w3)" by simp
  show ?thesis
    using c u v P1 s2 P3'
    by (cases r1; cases r2; cases r3) (simp_all add: extract_transform_load_def)
qed

lemma dt_do_update_key: "order_date (dt_do_update x r) = order_date x"
  by (simp add: dt_do_update_def)

lemma extract_transform_load_keys_unique:
  assumes "keys_unique (store w)"
  shows "keys_unique (store (snd (extract_transform_load w)))"
proof (rule extract_transform_load_store [where P = keys_unique])
  show "keys_unique (store w)" by (rule assms)
  show "keys_unique ((store w)\<lparr>product_performance :=
                   Some (case product_performance (store w) of None \<Rightarrow> [] | Some t \<Rightarrow> t),
                 daily_trends :=
                   Some (case daily_trends (store w) of None \<Rightarrow> [] | Some t \<Rightarrow> t)\<rparr>)"
    using assms by (simp add: keys_unique_def split: option.splits)
next
  fix os page d rows d'
  assume "keys_unique d" and e: "exec_sql (current_date w) (UpsertDailyTrends page) d = Inr (rows, d')"
  from exec_sql_upsert_dt [OF e] obtain tbl rs tbl' where
    t: "daily_trends d = Some tbl" and
    o: "on_conflict_do_update order_date dt_do_update rs [] tbl = Inr tbl'" and
    d': "d' = d\<lparr>daily_trends := Some tbl'\<rparr>" by blast
  from \<open>keys_unique d\<close> t have "distinct (map order_date tbl)" by (simp add: keys_unique_def)
  with o have "distinct (map order_date tbl')"
    by (rule ocdu_distinct [where key = order_date and upd = dt_do_update, OF dt_do_update_key])
  with \<open>keys_unique d\<close> d' show "keys_unique d'" by (simp add: keys_unique_def)
qed

text \<open>
  The invariant of the primary keys: after any sequence of runs over any sequence of
  source states (and whatever the outcome of each run), product\_performance holds at most
  one row per product and daily\_trends at most one row per order\_date, provided this held
  before the first run.
\<close>

lemma keys_stay_unique:
  assumes "keys_unique (store w)"
  shows "keys_unique (store (scheduled_runs runs w))"
  using assms
proof (induction runs arbitrary: w)
  case Nil
  then show ?case by simp
next
  case (Cons run runs)
  obtain source today refusals where run: "run = (source, today, refusals)" by (cases run)
  let ?w = "w\<lparr>store := (store w)\<lparr>order_tbl := source\<rparr>, current_date := today,
             conn_refused := refusals\<rparr>"
  have "keys_unique (store ?w)" using Cons.prems by (simp add: keys_unique_def)
  then have "keys_unique (store (snd (extract_transform_load ?w)))"
    by (rule extract_transform_load_keys_unique)
  then show ?case using run by (simp add: Cons.IH)
qed

lemma keys_stay_unique_example:
  "keys_unique (store fresh_world) \<and>
   keys_unique (store (scheduled_runs
     [(Some two_days_orders, (2025, 1, 3), []), (Some abc_orders, (2025, 1, 4), [False, True])]
     fresh_world))"
proof -
  have a: "keys_unique (store fresh_world)" by (simp add: keys_unique_def fresh_world_def)
  from a keys_stay_unique [OF a] show ?thesis by (rule conjI)
qed

subsection \<open>Rows of keys that left the source\<close>

lemma values_rows_map: "values_rows f vss = Inr rs \<Longrightarrow> map f vss = map Inr rs"
proof (induction vss arbitrary: rs)
  case Nil
  then show ?case by simp
next
  case (Cons vs vss)
  then show ?case by (auto split: sum.splits)
qed

lemma values_rows_keys:
  assumes "values_rows f vss = Inr rs"
    and "\<And>vs r. vs \<in> set vss \<Longrightarrow> f vs = Inr r \<Longrightarrow> kv vs = k r"
  shows "map k rs = map kv vss"
proof -
  have "length rs = length vss"
    using values_rows_map [OF assms(1)] by (metis length_map)
  moreover have "\<And>i. i < length vss \<Longrightarrow> k (rs ! i) = kv (vss ! i)"
  proof -
    fix i assume i: "i < length vss"
    with values_rows_map [OF assms(1)] \<open>length rs = length vss\<close>
    have "f (vss ! i) = Inr (rs ! i)" by (metis nth_map)
    with assms(2) [of "vss ! i" "rs ! i"] i show "k (rs ! i) = kv (vss ! i)" by simp
  qed
  ultimately show ?thesis by (simp add: list_eq_iff_nth_eq)
qed

lemma dt_values_row_key: "dt_values_row vs = Inr r \<Longrightarrow> vs ! 0 = Date (order_date r)"
proof -
  assume a: "dt_values_row vs = Inr r"
  then have "length vs = 3"
    unfolding dt_values_row_def length_3_conv by (auto split: list.splits)
  then obtain v1 v2 v3 where vs: "vs = [v1, v2, v3]" unfolding length_3_conv by blast
  with a show ?thesis
    by (cases v1) (auto simp: dt_values_row_def split: sum.splits)
qed

lemma dt_query_row_key:
  "vs \<in> set (daily_trends_query os) \<Longrightarrow>
     \<exists>d \<in> (\<lambda>r. DATE (created_at r)) ` set os. vs ! 0 = Date d"
proof -
  assume "vs \<in> set (daily_trends_query os)"
  then obtain g where g: "g \<in> set (group_by (\<lambda>r. DATE (created_at r)) amount os)"
    and vs: "vs = (\<lambda>(d, n, s). [Date d, Bigint (int n), Numeric s]) g"
    unfolding daily_trends_query_def by auto
  from g have "fst g \<in> fst ` set (group_by (\<lambda>r. DATE (created_at r)) amount os)" by (rule imageI)
  then have "fst g \<in> (\<lambda>r. DATE (created_at r)) ` set os" by (simp only: group_by_keys)
  moreover from vs have "vs ! 0 = Date (fst g)" by (cases g) simp
  ultimately show ?thesis by blast
qed

lemma extract_transform_load_frame: "frame w (store (snd (extract_transform_load w)))"
proof (rule extract_transform_load_store [where P = "frame w"])
  show "frame w (store w)" by (simp add: frame_def)
  show "frame w ((store w)\<lparr>product_performance :=
                   Some (case product_performance (store w) of None \<Rightarrow> [] | Some t \<Rightarrow> t),
                 daily_trends :=
                   Some (case daily_trends (store w) of None \<Rightarrow> [] | Some t \<Rightarrow> t)\<rparr>)"
    by (simp add: frame_def rows_outside_def split: option.splits)
next
  fix os page d rows d'
  assume os: "order_tbl (store w) = Some os" and page: "set page \<subseteq> set (daily_trends_query os)"
    and fr: "frame w d" and e: "exec_sql (current_date w) (UpsertDailyTrends page) d = Inr (rows, d')"
  from exec_sql_upsert_dt [OF e] obtain tbl rs tbl' where
    t: "daily_trends d = Some tbl" and v: "values_rows dt_values_row page = Inr rs" and
    o: "on_conflict_do_update order_date dt_do_update rs [] tbl = Inr tbl'" and
    d': "d' = d\<lparr>daily_trends := Some tbl'\<rparr>" by blast
  have keys: "order_date ` set rs \<subseteq> set (source_dates w)"
  proof
    fix k assume "k \<in> order_date ` set rs"
    then obtain r where r: "r \<in> set rs" "k = order_date r" by auto
    then have "Inr r \<in> set (map dt_values_row page)"
      using values_rows_map [OF v] by simp
    then obtain vs where vs: "vs \<in> set page" "dt_values_row vs = Inr r" by auto
    have "vs \<in> set (daily_trends_query os)" using page vs(1) by blast
    from dt_query_row_key [OF this] obtain dd where
      dd: "dd \<in> (\<lambda>r. DATE (created_at r)) ` set os" "vs ! 0 = Date dd" by blast
    from dt_values_row_key [OF vs(2)] dd(2) have "order_date r = dd" by simp
    with dd(1) r(2) os show "k \<in> set (source_dates w)" by (simp add: source_dates_def)
  qed
  have "filter (\<lambda>x. order_date x \<notin> set (source_dates w)) tbl' =
      filter (\<lambda>x. order_date x \<notin> set (source_dates w)) tbl"
    by (rule ocdu_frame [where key = order_date and upd = dt_do_update, OF dt_do_update_key o keys])
  with fr t d' show "frame w d'" by (simp add: frame_def rows_outside_def)
qed

lemma empty_source_product_step:
  "order_tbl (store w) = Some [] \<Longrightarrow>
     upsert_product_performance w =
       (if refused w then (Inl OperationalError, w\<lparr>conn_refused := tl (conn_refused w)\<rparr>)
        else (Inr (), emit (Log ProductReportHeader)
           (emit Commit ((emit (Execute SelectProductPerformance) (connected w))\<lparr>store := store w\<rparr>))))"
  by (simp add: upsert_product_performance_def fetch_query_results_eq product_performance_query_def
      group_by_Nil)

lemma empty_source_daily_step:
  "order_tbl (store w) = Some [] \<Longrightarrow>
     upsert_daily_trends w =
       (if refused w then (Inl OperationalError, w\<lparr>conn_refused := tl (conn_refused w)\<rparr>)
        else (Inr (), emit (Log DailyReportHeader)
           (emit Commit ((emit (Execute SelectDailyTrends) (connected w))\<lparr>store := store w\<rparr>))))"
  by (simp add: upsert_daily_trends_def fetch_query_results_eq daily_trends_query_def
      group_by_Nil)

lemma empty_source_no_upsert:
  assumes "order_tbl (store w) = Some []"
  shows "filter is_upsert (trace (snd (extract_transform_load w))) = filter is_upsert (trace w)"
proof -
  let ?w0 = "emit (Log EtlStarting) w"
  obtain r1 w1 where c: "create_tables ?w0 = (r1, w1)" by (cases "create_tables ?w0")
  then have t1: "filter is_upsert (trace w1) = filter is_upsert (trace w)"
    and o1: "order_tbl (store w1) = Some []"
    using assms by (auto simp: create_tables_eq split: if_splits)
  obtain r2 w2 where u: "upsert_product_performance w1 = (r2, w2)"
    by (cases "upsert_product_performance w1")
  then have t2: "filter is_upsert (trace w2) = filter is_upsert (trace w)"
    and o2: "order_tbl (store w2) = Some []"
    using t1 o1 by (auto simp: empty_source_product_step [OF o1] split: if_splits)
  obtain r3 w3 where v: "upsert_daily_trends w2 = (r3, w3)" by (cases "upsert_daily_trends w2")
  then have t3: "filter is_upsert (trace w3) = filter is_upsert (trace w)"
    using t2 by (auto simp: empty_source_daily_step [OF o2] split: if_splits)
  show ?thesis
    using c u v t1 t2 t3
    by (cases r1; cases r2; cases r3) (simp_all add: extract_transform_load_def)
qed

text \<open>
  C4. For every run (whatever its outcome), the rows of product\_performance whose product
  has no order in the source and the rows of daily\_trends whose date has no order in the
  source are after the run what they were before it, in the same order; with an empty
  source no upsert statement is executed and every row of both relations is what it was.
\<close>

theorem keys_absent_from_source_untouched:
  "rows_outside pp_product (source_products w)
       (product_performance (store (snd (extract_transform_load w)))) =
     rows_outside pp_product (source_products w) (product_performance (store w)) \<and>
   rows_outside order_date (source_dates w)
       (daily_trends (store (snd (extract_transform_load w)))) =
     rows_outside order_date (source_dates w) (daily_trends (store w)) \<and>
   (order_tbl (store w) = Some [] \<longrightarrow>
      filter is_upsert (trace (snd (extract_transform_load w))) = filter is_upsert (trace w) \<and>
      rows_outside pp_product [] (product_performance (store (snd (extract_transform_load w)))) =
        rows_outside pp_product [] (product_performance (store w)) \<and>
      rows_outside order_date [] (daily_trends (store (snd (extract_transform_load w)))) =
        rows_outside order_date [] (daily_trends (store w)))"
proof -
  note f = extract_transform_load_frame [of w, unfolded frame_def]
  have "order_tbl (store w) = Some [] \<Longrightarrow> source_products w = [] \<and> source_dates w = []"
    by (simp add: source_products_def source_dates_def)
  with f empty_source_no_upsert [of w] show ?thesis by auto
qed

theorem keys_absent_from_source_untouched_witness:
  "order_tbl (store (stale_world [])) = Some [] \<and>
   filter is_upsert (trace (snd (extract_transform_load (stale_world [])))) = [] \<and>
   rows_outside order_date []
       (daily_trends (store (snd (extract_transform_load (stale_world []))))) =
     [\<lparr>order_date = (2024, 12, 31), daily_orders = 4, daily_sales = 40\<rparr>,
      \<lparr>order_date = (2025, 1, 1), daily_orders = 1, daily_sales = 1\<rparr>] \<and>
   rows_outside order_date (source_dates (stale_world two_days_orders))
       (daily_trends (store (snd (extract_transform_load (stale_world two_days_orders))))) =
     [\<lparr>order_date = (2024, 12, 31), daily_orders = 4, daily_sales = 40\<rparr>]"
proof -
  have a: "order_tbl (store (stale_world [])) = Some []" by (simp add: stale_world_def)
  have b: "trace (stale_world []) = []" by (simp add: stale_world_def)
  have c: "rows_outside order_date [] (daily_trends (store (stale_world []))) =
     [\<lparr>order_date = (2024, 12, 31), daily_orders = 4, daily_sales = 40\<rparr>,
      \<lparr>order_date = (2025, 1, 1), daily_orders = 1, daily_sales = 1\<rparr>]"
    by (simp add: stale_world_def rows_outside_def)
  have d: "rows_outside order_date (source_dates (stale_world two_days_orders))
      (daily_trends (store (stale_world two_days_orders))) =
     [\<lparr>order_date = (2024, 12, 31), daily_orders = 4, daily_sales = 40\<rparr>]"
    by (simp add: stale_world_def rows_outside_def source_dates_def two_days_orders_def DATE_def)
  from keys_absent_from_source_untouched [of "stale_world []"]
    keys_absent_from_source_untouched [of "stale_world two_days_orders"] a b c d
  show ?thesis by simp
qed

subsection \<open>Errors a step can raise\<close>

lemma daily_trends_query_keys:
  "distinct (map (\<lambda>row. row ! 0) (daily_trends_query os))"
proof -
  let ?gs = "group_by (\<lambda>r. DATE (created_at r)) amount os"
  have "map (\<lambda>row. row ! 0) (daily_trends_query os) = map (\<lambda>g. Date (fst g)) (sort_key fst ?gs)"
    unfolding daily_trends_query_def by (simp add: split_beta comp_def)
  also have "\<dots> = map Date (map fst (sort_key fst ?gs))" by (simp add: comp_def)
  finally have eq: "map (\<lambda>row. row ! 0) (daily_trends_query os) = map Date (map fst (sort_key fst ?gs))" .
  have "distinct (map fst (sort_key fst ?gs))"
    by (simp only: sort_key_fst_keys [OF group_by_distinct]) simp
  then show ?thesis unfolding eq by (simp add: distinct_map inj_on_def del: map_map)
qed

lemma check_arity_error:
  "check_arity cols vss = Inl e \<Longrightarrow> e = TooManyExpressions \<or> e = TooFewExpressions"
  by (induction vss) (auto split: if_splits)

lemma values_rows_error:
  "values_rows f vss = Inl e \<Longrightarrow> \<exists>vs \<in> set vss. f vs = Inl e"
  by (induction vss) (auto split: sum.splits)

lemma to_integer_error: "to_integer v = Inl e \<Longrightarrow> e \<noteq> CardinalityViolation"
  by (cases v) (auto split: if_splits)

lemma to_numeric_error: "to_numeric v = Inl e \<Longrightarrow> e \<noteq> CardinalityViolation"
  by (cases v) auto

lemma to_date_error: "to_date v = Inl e \<Longrightarrow> e \<noteq> CardinalityViolation"
  by (cases v) auto

lemma dt_values_row_error: "dt_values_row vs = Inl e \<Longrightarrow> e \<noteq> CardinalityViolation"
proof (cases "length vs = 3")
  case True
  assume a: "dt_values_row vs = Inl e"
  from True obtain v1 v2 v3 where vs: "vs = [v1, v2, v3]" unfolding length_3_conv by blast
  from a show ?thesis
    unfolding vs dt_values_row_def
    by (auto split: sum.splits dest: to_integer_error to_numeric_error to_date_error)
next
  case False
  assume a: "dt_values_row vs = Inl e"
  from False have "\<not> (\<exists>a b c. vs = [a, b, c])" unfolding length_3_conv by blast
  with a show ?thesis
    unfolding dt_values_row_def by (auto split: list.splits)
qed

lemma upsert_dt_statement_no_cardinality_violation:
  assumes "distinct (map (\<lambda>row. row ! 0) page)"
  shows "exec_sql today (UpsertDailyTrends page) d \<noteq> Inl CardinalityViolation"
proof (cases "daily_trends d")
  case None
  then show ?thesis by simp
next
  case (Some tbl)
  show ?thesis
  proof (cases "check_arity dt_insert_columns page")
    case (Inl e)
    with Some check_arity_error [OF Inl] show ?thesis by auto
  next
    case ok: (Inr u)
    show ?thesis
    proof (cases "values_rows dt_values_row page")
      case (Inl e)
      from values_rows_error [OF Inl] dt_values_row_error have "e \<noteq> CardinalityViolation" by blast
      with Some ok Inl show ?thesis by simp
    next
      case (Inr rs)
      have "map (\<lambda>r. Date (order_date r)) rs = map (\<lambda>row. row ! 0) page"
        by (rule values_rows_keys [OF Inr]) (simp add: dt_values_row_key)
      then have "distinct (map (\<lambda>r. Date (order_date r)) rs)" using assms by simp
      then have "distinct (map Date (map order_date rs))" by (simp add: comp_def)
      then have "distinct (map order_date rs)" by (simp only: distinct_map)
      then obtain tbl' where "on_conflict_do_update order_date dt_do_update rs [] tbl = Inr tbl'"
        using ocdu_succeeds [of order_date rs "[]" dt_do_update tbl] by auto
      with Some ok Inr show ?thesis by simp
    qed
  qed
qed

lemma execute_pages_error:
  "execute_pages q pages db w = (Inl e, w') \<Longrightarrow>
     \<exists>page \<in> set pages. \<exists>d. exec_sql (current_date w) (q page) d = Inl e"
proof (induction pages arbitrary: db w)
  case Nil
  then show ?case by simp
next
  case (Cons page pages)
  show ?case
  proof (cases "exec_sql (current_date w) (q page) db")
    case (Inl e')
    with Cons.prems have "e' = e" by (simp add: cur_execute_def)
    with Inl show ?thesis by auto
  next
    case (Inr a)
    obtain rows d1 where a: "a = (rows, d1)" by (cases a)
    with Inr Cons.prems have "execute_pages q pages d1 (emit (Execute (q page)) w) = (Inl e, w')"
      by (simp add: cur_execute_def)
    from Cons.IH [OF this] show ?thesis by auto
  qed
qed

lemma run_upsert_error:
  assumes "fst (run_upsert q data w) = Inl e"
  shows "e = OperationalError \<or>
    (\<exists>page \<in> set (paginate 100 data). \<exists>d. exec_sql (current_date w) (q page) d = Inl e)"
proof (cases "refused w")
  case True
  with assms show ?thesis by (simp add: run_upsert_def with_connection_eq)
next
  case False
  obtain r w' where ev: "execute_pages q (paginate 100 data) (store w) (connected w) = (r, w')"
    by (cases "execute_pages q (paginate 100 data) (store w) (connected w)")
  with assms False have "r = Inl e"
    by (cases r) (simp_all add: run_upsert_def with_connection_eq execute_values_def)
  with ev execute_pages_error [of q "paginate 100 data" "store w" "connected w" e w']
  show ?thesis by simp
qed

lemma upsert_daily_trends_no_cardinality_violation:
  "fst (upsert_daily_trends w) \<noteq> Inl CardinalityViolation"
proof (cases "refused w \<or> order_tbl (store w) = None")
  case True
  then show ?thesis by (auto simp: upsert_daily_trends_def fetch_query_results_eq)
next
  case False
  then obtain os where os: "order_tbl (store w) = Some os" and nr: "\<not> refused w" by auto
  let ?rows = "daily_trends_query os"
  define w1 where
    "w1 = emit Commit ((emit (Execute SelectDailyTrends) (connected w))\<lparr>store := store w\<rparr>)"
  have f: "fetch_query_results SelectDailyTrends w = (Inr ?rows, w1)"
    using nr os by (simp add: fetch_query_results_eq w1_def)
  define w2 where
    "w2 = (emit (Log DailyReportHeader) w1)\<lparr>trace := trace (emit (Log DailyReportHeader) w1) @
       map (\<lambda>r. Log (DailyLine (r ! 0) (r ! 1) (r ! 2))) ?rows\<rparr>"
  have d: "daily_rows ?rows [] (emit (Log DailyReportHeader) w1) = (Inr ?rows, w2)"
    using daily_rows_ok [OF dt_query_lengths, of os "[]" "emit (Log DailyReportHeader) w1"]
    by (simp add: w2_def)
  show ?thesis
  proof (cases "?rows = []")
    case True
    then show ?thesis using f d by (simp add: upsert_daily_trends_def)
  next
    case False
    then have u: "upsert_daily_trends w = run_upsert UpsertDailyTrends ?rows w2"
      using f d by (simp add: upsert_daily_trends_def)
    show ?thesis
    proof
      assume "fst (upsert_daily_trends w) = Inl CardinalityViolation"
      with u have "fst (run_upsert UpsertDailyTrends ?rows w2) = Inl CardinalityViolation" by simp
      from run_upsert_error [OF this] obtain page dd where
        p: "page \<in> set (paginate 100 ?rows)" and
        e: "exec_sql (current_date w2) (UpsertDailyTrends page) dd = Inl CardinalityViolation"
        by auto
      from paginate_distinct [OF p daily_trends_query_keys]
      have "distinct (map (\<lambda>row. row ! 0) page)" .
      from upsert_dt_statement_no_cardinality_violation [OF this] e show False by blast
    qed
  qed
qed

lemma product_rows_error:
  "product_rows rs data w = (r, w') \<Longrightarrow> r = Inl e \<Longrightarrow> e = ValueError"
proof (induction rs arbitrary: data w)
  case Nil
  then show ?case by simp
next
  case (Cons x xs)
  show ?case
  proof (cases "length x = 4")
    case True
    with Cons.prems(1) have "product_rows xs (data @ [x])
        (emit (Log (ProductLine (x ! 0) (x ! 1) (x ! 2) (x ! 3))) w) = (r, w')"
      by (simp add: product_rows_step del: product_rows.simps)
    from Cons.IH [OF this Cons.prems(2)] show ?thesis .
  next
    case False
    with Cons.prems show ?thesis by (simp add: product_rows_step del: product_rows.simps)
  qed
qed

lemma upsert_product_performance_errors:
  "fst (upsert_product_performance w) \<in>
     {Inr (), Inl OperationalError, Inl UndefinedTable, Inl TooFewExpressions, Inl ValueError}"
proof -
  obtain r1 w1 where f: "fetch_query_results SelectProductPerformance w = (r1, w1)"
    by (cases "fetch_query_results SelectProductPerformance w")
  show ?thesis
  proof (cases r1)
    case (Inl e)
    with f have "e = OperationalError \<or> e = UndefinedTable"
      by (auto simp: fetch_query_results_eq split: if_splits option.splits)
    with f Inl show ?thesis by (auto simp: upsert_product_performance_def)
  next
    case (Inr results)
    obtain r2 w2 where p: "product_rows results [] (emit (Log ProductReportHeader) w1) = (r2, w2)"
      by (cases "product_rows results [] (emit (Log ProductReportHeader) w1)")
    show ?thesis
    proof (cases r2)
      case (Inl e)
      have "e = ValueError" using p Inl by (rule product_rows_error)
      with f Inr p Inl show ?thesis by (simp add: upsert_product_performance_def)
    next
      case data: (Inr data)
      have len: "\<forall>r \<in> set data. length r = 4"
        using product_rows_lengths [of results "[]" _ data w2] p data by simp
      show ?thesis
      proof (cases "data = []")
        case True
        with f Inr p data show ?thesis by (simp add: upsert_product_performance_def)
      next
        case False
        have "fst (run_upsert UpsertProductPerformance data w2) \<in>
            {Inl OperationalError, Inl UndefinedTable, Inl TooFewExpressions}"
          by (simp add: run_upsert_pp_rejected [OF False len] split: option.splits)
        with f Inr p data False show ?thesis by (auto simp: upsert_product_performance_def)
      qed
    qed
  qed
qed

lemma extract_transform_load_no_cardinality_violation:
  "fst (extract_transform_load w) \<noteq> Inl CardinalityViolation"
proof -
  let ?w0 = "emit (Log EtlStarting) w"
  obtain r1 w1 where c: "create_tables ?w0 = (r1, w1)" by (cases "create_tables ?w0")
  then have r1: "r1 \<noteq> Inl CardinalityViolation"
    by (auto simp: create_tables_eq split: if_splits)
  obtain r2 w2 where u: "upsert_product_performance w1 = (r2, w2)"
    by (cases "upsert_product_performance w1")
  have r2: "r2 \<noteq> Inl CardinalityViolation"
    using upsert_product_performance_errors [of w1] u by auto
  obtain r3 w3 where v: "upsert_daily_trends w2 = (r3, w3)" by (cases "upsert_daily_trends w2")
  have r3: "r3 \<noteq> Inl CardinalityViolation"
    using upsert_daily_trends_no_cardinality_violation [of w2] v by simp
  show ?thesis
    using c u v r1 r2 r3
    by (cases r1; cases r2; cases r3) (simp_all add: extract_transform_load_def)
qed

text \<open>
  C10. Within one run each batch holds at most one tuple per key: the rows of the product
  query have pairwise different products and the rows of the daily query pairwise
  different dates, for every source. Hence no page of a batch proposes a key twice, and
  neither step, nor the run, ever raises the error of an ON CONFLICT command that would
  affect a row a second time.
\<close>

theorem upsert_batches_key_distinct:
  "distinct (map (\<lambda>row. row ! 0) (product_performance_query os)) \<and>
   distinct (map (\<lambda>row. row ! 0) (daily_trends_query os)) \<and>
   fst (upsert_product_performance w) \<noteq> Inl CardinalityViolation \<and>
   fst (upsert_daily_trends w) \<noteq> Inl CardinalityViolation \<and>
   fst (extract_transform_load w) \<noteq> Inl CardinalityViolation"
proof -
  have "fst (upsert_product_performance w) \<noteq> Inl CardinalityViolation"
    using upsert_product_performance_errors [of w] by auto
  then show ?thesis
    using product_performance_query_keys [of os] daily_trends_query_keys [of os]
      upsert_daily_trends_no_cardinality_violation [of w]
      extract_transform_load_no_cardinality_violation [of w]
    by (intro conjI)
qed

subsection \<open>Transactions\<close>

lemma run_upsert_failure_store:
  assumes "fst (run_upsert q data w) = Inl e"
  shows "store (snd (run_upsert q data w)) = store w"
proof (cases "refused w")
  case True
  then show ?thesis by (simp add: run_upsert_def with_connection_eq)
next
  case False
  obtain r w' where ev: "execute_pages q (paginate 100 data) (store w) (connected w) = (r, w')"
    by (cases "execute_pages q (paginate 100 data) (store w) (connected w)")
  from execute_pages_world [OF ev] have s: "store w' = store w" by simp
  from assms False ev have "\<exists>e'. r = Inl e'"
    by (cases r) (simp_all add: run_upsert_def with_connection_eq execute_values_def)
  then obtain e' where "r = Inl e'" ..
  with False ev s show ?thesis
    by (simp add: run_upsert_def with_connection_eq execute_values_def)
qed

lemma run_upsert_success_trace:
  assumes "fst (run_upsert q data w) = Inr x"
  shows "trace (snd (run_upsert q data w)) =
     trace w @ Connect # map (\<lambda>p. Execute (q p)) (paginate 100 data) @ [Commit]"
proof (cases "refused w")
  case True
  with assms show ?thesis by (simp add: run_upsert_def with_connection_eq)
next
  case False
  obtain r w' where ev: "execute_pages q (paginate 100 data) (store w) (connected w) = (r, w')"
    by (cases "execute_pages q (paginate 100 data) (store w) (connected w)")
  from assms False ev obtain d where r: "r = Inr d"
    by (cases r) (simp_all add: run_upsert_def with_connection_eq execute_values_def)
  from execute_pages_trace [OF ev] r
  have "trace w' = trace (connected w) @ map (\<lambda>p. Execute (q p)) (paginate 100 data)" by auto
  with False ev r show ?thesis
    by (simp add: run_upsert_def with_connection_eq execute_values_def)
qed

lemma upsert_daily_trends_failure_store:
  assumes "fst (upsert_daily_trends w) = Inl e"
  shows "store (snd (upsert_daily_trends w)) = store w"
proof (cases "refused w \<or> order_tbl (store w) = None")
  case True
  then show ?thesis by (auto simp: upsert_daily_trends_def fetch_query_results_eq)
next
  case False
  then obtain os where os: "order_tbl (store w) = Some os" and nr: "\<not> refused w" by auto
  let ?rows = "daily_trends_query os"
  define w1 where
    "w1 = emit Commit ((emit (Execute SelectDailyTrends) (connected w))\<lparr>store := store w\<rparr>)"
  have f: "fetch_query_results SelectDailyTrends w = (Inr ?rows, w1)"
    using nr os by (simp add: fetch_query_results_eq w1_def)
  define w2 where
    "w2 = (emit (Log DailyReportHeader) w1)\<lparr>trace := trace (emit (Log DailyReportHeader) w1) @
       map (\<lambda>r. Log (DailyLine (r ! 0) (r ! 1) (r ! 2))) ?rows\<rparr>"
  have d: "daily_rows ?rows [] (emit (Log DailyReportHeader) w1) = (Inr ?rows, w2)"
    using daily_rows_ok [OF dt_query_lengths, of os "[]" "emit (Log DailyReportHeader) w1"]
    by (simp add: w2_def)
  have w2: "store w2 = store w" by (simp add: w2_def w1_def)
  show ?thesis
  proof (cases "?rows = []")
    case True
    then show ?thesis using f d w2 by (simp add: upsert_daily_trends_def)
  next
    case False
    then have u: "upsert_daily_trends w = run_upsert UpsertDailyTrends ?rows w2"
      using f d by (simp add: upsert_daily_trends_def)
    with assms have "fst (run_upsert UpsertDailyTrends ?rows w2) = Inl e" by simp
    from run_upsert_failure_store [OF this] u w2 show ?thesis by simp
  qed
qed

lemma extract_transform_load_steps:
  "extract_transform_load w =
     (case create_tables (emit (Log EtlStarting) w) of
        (Inl e, w1) \<Rightarrow> (Inl e, w1)
      | (Inr u, w1) \<Rightarrow>
          (case upsert_product_performance (after_schema w) of
             (Inl e, w2) \<Rightarrow> (Inl e, w2)
           | (Inr u, w2) \<Rightarrow>
               (case upsert_daily_trends (after_products w) of
                  (Inl e, w3) \<Rightarrow> (Inl e, w3)
                | (Inr u, w3) \<Rightarrow> (Inr (), emit (Log EtlCompleted) w3))))"
proof -
  obtain r1 w1 where c: "create_tables (emit (Log EtlStarting) w) = (r1, w1)"
    by (cases "create_tables (emit (Log EtlStarting) w)")
  then have s: "after_schema w = w1" by (simp add: after_schema_def)
  obtain r2 w2 where u: "upsert_product_performance w1 = (r2, w2)"
    by (cases "upsert_product_performance w1")
  with s have p: "after_products w = w2" by (simp add: after_products_def)
  obtain r3 w3 where v: "upsert_daily_trends w2 = (r3, w3)" by (cases "upsert_daily_trends w2")
  show ?thesis
    unfolding extract_transform_load_def s p c u v
    by (cases r1; cases r2; cases r3) (simp_all add: u v)
qed

text \<open>
  C9. Each data-access step runs in a transaction of its own connection that is committed
  before the step returns: a successful schema step, read or upsert adds to the effects
  exactly a connect, its statements and a commit. A step that raises leaves the committed
  database as it found it (a failed upsert changes nothing, whichever page failed). The run
  is not atomic: when the product step raises after the schema step, the run raises the
  same error and the database is the one the schema step committed; when the daily step
  raises, the database is the one left by the steps before it.
\<close>

theorem steps_commit_separately:
  "(fst (create_tables w) = Inr () \<longrightarrow>
      trace (snd (create_tables w)) =
        trace w @ [Connect, Execute CreateProductPerformance, Execute CreateDailyTrends, Commit]) \<and>
   (fst (fetch_query_results q w) = Inr rows \<longrightarrow>
      trace (snd (fetch_query_results q w)) = trace w @ [Connect, Execute q, Commit]) \<and>
   (fst (run_upsert uq data w) = Inr () \<longrightarrow>
      trace (snd (run_upsert uq data w)) =
        trace w @ Connect # map (\<lambda>p. Execute (uq p)) (paginate 100 data) @ [Commit]) \<and>
   (fst (run_upsert uq data w) = Inl e \<longrightarrow> store (snd (run_upsert uq data w)) = store w) \<and>
   (fst (upsert_daily_trends w) = Inl e \<longrightarrow> store (snd (upsert_daily_trends w)) = store w) \<and>
   store (snd (upsert_product_performance w)) = store w \<and>
   (fst (create_tables (emit (Log EtlStarting) w)) = Inr () \<and>
    fst (upsert_product_performance (after_schema w)) = Inl e \<longrightarrow>
      fst (extract_transform_load w) = Inl e \<and>
      store (snd (extract_transform_load w)) = store (after_schema w)) \<and>
   (fst (create_tables (emit (Log EtlStarting) w)) = Inr () \<and>
    fst (upsert_product_performance (after_schema w)) = Inr () \<and>
    fst (upsert_daily_trends (after_products w)) = Inl e \<longrightarrow>
      fst (extract_transform_load w) = Inl e \<and>
      store (snd (extract_transform_load w)) = store (after_products w))"
proof -
  have a: "fst (create_tables w) = Inr () \<longrightarrow>
      trace (snd (create_tables w)) =
        trace w @ [Connect, Execute CreateProductPerformance, Execute CreateDailyTrends, Commit]"
    by (simp add: create_tables_eq)
  have b: "fst (fetch_query_results q w) = Inr rows \<longrightarrow>
      trace (snd (fetch_query_results q w)) = trace w @ [Connect, Execute q, Commit]"
    by (auto simp: fetch_query_results_eq split: sum.splits)
  have c: "fst (run_upsert uq data w) = Inr () \<longrightarrow>
      trace (snd (run_upsert uq data w)) =
        trace w @ Connect # map (\<lambda>p. Execute (uq p)) (paginate 100 data) @ [Commit]"
    using run_upsert_success_trace [of uq data w "()"] by blast
  have d: "fst (run_upsert uq data w) = Inl e \<longrightarrow> store (snd (run_upsert uq data w)) = store w"
    using run_upsert_failure_store [of uq data w e] by blast
  have e: "fst (upsert_daily_trends w) = Inl e \<longrightarrow> store (snd (upsert_daily_trends w)) = store w"
    using upsert_daily_trends_failure_store [of w e] by blast
  have f: "store (snd (upsert_product_performance w)) = store w"
    by (rule upsert_product_performance_store)
  have g: "fst (create_tables (emit (Log EtlStarting) w)) = Inr () \<and>
    fst (upsert_product_performance (after_schema w)) = Inl e \<longrightarrow>
      fst (extract_transform_load w) = Inl e \<and>
      store (snd (extract_transform_load w)) = store (after_schema w)"
  proof (intro impI, elim conjE)
    assume c: "fst (create_tables (emit (Log EtlStarting) w)) = Inr ()"
      and u: "fst (upsert_product_performance (after_schema w)) = Inl e"
    obtain w1 where c': "create_tables (emit (Log EtlStarting) w) = (Inr (), w1)"
      using c by (cases "create_tables (emit (Log EtlStarting) w)") simp
    obtain w2 where u': "upsert_product_performance (after_schema w) = (Inl e, w2)"
      using u by (cases "upsert_product_performance (after_schema w)") simp
    have "extract_transform_load w = (Inl e, w2)"
      by (simp add: extract_transform_load_steps c' u')
    with upsert_product_performance_store [of "after_schema w"] u'
    show "fst (extract_transform_load w) = Inl e \<and>
      store (snd (extract_transform_load w)) = store (after_schema w)" by simp
  qed
  have h: "fst (create_tables (emit (Log EtlStarting) w)) = Inr () \<and>
    fst (upsert_product_performance (after_schema w)) = Inr () \<and>
    fst (upsert_daily_trends (after_products w)) = Inl e \<longrightarrow>
      fst (extract_transform_load w) = Inl e \<and>
      store (snd (extract_transform_load w)) = store (after_products w)"
  proof (intro impI, elim conjE)
    assume c: "fst (create_tables (emit (Log EtlStarting) w)) = Inr ()"
      and u: "fst (upsert_product_performance (after_schema w)) = Inr ()"
      and v: "fst (upsert_daily_trends (after_products w)) = Inl e"
    obtain w1 where c': "create_tables (emit (Log EtlStarting) w) = (Inr (), w1)"
      using c by (cases "create_tables (emit (Log EtlStarting) w)") simp
    obtain w2 where u': "upsert_product_performance (after_schema w) = (Inr (), w2)"
      using u by (cases "upsert_product_performance (after_schema w)") simp
    obtain w3 where v': "upsert_daily_trends (after_products w) = (Inl e, w3)"
      using v by (cases "upsert_daily_trends (after_products w)") simp
    have "extract_transform_load w = (Inl e, w3)"
      by (simp add: extract_transform_load_steps c' u' v')
    with upsert_daily_trends_failure_store [OF v] v'
    show "fst (extract_transform_load w) = Inl e \<and>
      store (snd (extract_transform_load w)) = store (after_products w)" by simp
  qed
  from a b c d e f g h show ?thesis by (intro conjI)
qed

lemma abc_after_schema:
  "fst (create_tables (emit (Log EtlStarting) abc_world)) = Inr ()"
  "conn_refused (after_schema abc_world) = []"
  "store (after_schema abc_world) =
     \<lparr>order_tbl = Some abc_orders, product_performance = Some [], daily_trends = Some []\<rparr>"
proof -
  have a: "conn_refused (emit (Log EtlStarting) abc_world) = []" by (simp add: abc_world_def)
  show "fst (create_tables (emit (Log EtlStarting) abc_world)) = Inr ()"
    by (rule create_tables_accepted(1) [OF a])
  show "conn_refused (after_schema abc_world) = []"
    unfolding after_schema_def by (rule create_tables_accepted(2) [OF a])
  show "store (after_schema abc_world) =
     \<lparr>order_tbl = Some abc_orders, product_performance = Some [], daily_trends = Some []\<rparr>"
    unfolding after_schema_def create_tables_accepted(3) [OF a] by (simp add: abc_world_def)
qed

lemma abc_products_rejected:
  "fst (upsert_product_performance (after_schema abc_world)) = Inl TooFewExpressions"
proof (rule upsert_product_performance_rejected_gen)
  show "order_tbl (store (after_schema abc_world)) = Some abc_orders"
    by (simp add: abc_after_schema)
  show "abc_orders \<noteq> []" by (simp add: abc_orders_def)
  show "product_performance (store (after_schema abc_world)) = Some []"
    by (simp add: abc_after_schema)
  show "conn_refused (after_schema abc_world) = []" by (rule abc_after_schema)
qed

lemma two_days_run_upsert:
  "fst (run_upsert UpsertDailyTrends two_days_rows two_days_world) = Inr ()"
proof -
  have a: "\<not> refused two_days_world" by (simp add: refused_def two_days_world_def)
  have b: "two_days_rows \<noteq> []" "length two_days_rows \<le> 100" by (simp_all add: two_days_rows_def)
  have "daily_trends (store two_days_world) = Some []" by (simp add: two_days_world_def)
  from two_days_statement [OF this, of "current_date two_days_world"]
    run_upsert_one_page [where q = UpsertDailyTrends, OF a b]
  show ?thesis by simp
qed

lemma third_refused_steps:
  "fst (create_tables (emit (Log EtlStarting) third_refused_world)) = Inr ()"
  "fst (upsert_product_performance (after_schema third_refused_world)) = Inr ()"
  "fst (upsert_daily_trends (after_products third_refused_world)) = Inl OperationalError"
  "store (after_products third_refused_world) =
     \<lparr>order_tbl = Some [], product_performance = Some [], daily_trends = Some []\<rparr>"
proof -
  let ?w0 = "emit (Log EtlStarting) third_refused_world"
  have r0: "\<not> refused ?w0" by (simp add: refused_def third_refused_world_def)
  show c: "fst (create_tables ?w0) = Inr ()" using r0 by (simp add: create_tables_eq)
  have s1: "store (after_schema third_refused_world) =
      \<lparr>order_tbl = Some [], product_performance = Some [], daily_trends = Some []\<rparr>"
    and c1: "conn_refused (after_schema third_refused_world) = [False, True]"
    using r0 by (simp_all add: after_schema_def create_tables_eq third_refused_world_def)
  have o1: "order_tbl (store (after_schema third_refused_world)) = Some []" by (simp add: s1)
  have r1: "\<not> refused (after_schema third_refused_world)" by (simp add: refused_def c1)
  show "fst (upsert_product_performance (after_schema third_refused_world)) = Inr ()"
    using r1 by (simp add: empty_source_product_step [OF o1])
  have s2: "store (after_products third_refused_world) =
      \<lparr>order_tbl = Some [], product_performance = Some [], daily_trends = Some []\<rparr>"
    and c2: "conn_refused (after_products third_refused_world) = [True]"
    using r1 s1 c1 by (simp_all add: after_products_def empty_source_product_step [OF o1])
  show "store (after_products third_refused_world) =
      \<lparr>order_tbl = Some [], product_performance = Some [], daily_trends = Some []\<rparr>" by (rule s2)
  have o2: "order_tbl (store (after_products third_refused_world)) = Some []" by (simp add: s2)
  have r2: "refused (after_products third_refused_world)" by (simp add: refused_def c2)
  show "fst (upsert_daily_trends (after_products third_refused_world)) = Inl OperationalError"
    using r2 by (simp add: empty_source_daily_step [OF o2])
qed

theorem steps_commit_separately_witness:
  "fst (extract_transform_load abc_world) = Inl TooFewExpressions \<and>
   store (snd (extract_transform_load abc_world)) =
     \<lparr>order_tbl = Some abc_orders, product_performance = Some [], daily_trends = Some []\<rparr> \<and>
   store abc_world =
     \<lparr>order_tbl = Some abc_orders, product_performance = None, daily_trends = None\<rparr> \<and>
   trace (snd (run_upsert UpsertDailyTrends two_days_rows two_days_world)) =
     [Connect, Execute (UpsertDailyTrends two_days_rows), Commit] \<and>
   fst (extract_transform_load third_refused_world) = Inl OperationalError \<and>
   store (snd (extract_transform_load third_refused_world)) =
     \<lparr>order_tbl = Some [], product_performance = Some [], daily_trends = Some []\<rparr>"
proof -
  note i1 = steps_commit_separately
    [of abc_world SelectDailyTrends "[]" UpsertDailyTrends "[]" TooFewExpressions]
  note i2 = steps_commit_separately
    [of two_days_world SelectDailyTrends "[]" UpsertDailyTrends two_days_rows TooFewExpressions]
  note i3 = steps_commit_separately
    [of third_refused_world SelectDailyTrends "[]" UpsertDailyTrends "[]" OperationalError]
  have p: "paginate 100 two_days_rows = [two_days_rows]"
    by (rule paginate_small) (simp_all add: two_days_rows_def)
  have t: "trace two_days_world = []" by (simp add: two_days_world_def)
  have s: "store abc_world =
     \<lparr>order_tbl = Some abc_orders, product_performance = None, daily_trends = None\<rparr>"
    by (simp add: abc_world_def)
  from i1 abc_after_schema abc_products_rejected
  have a: "fst (extract_transform_load abc_world) = Inl TooFewExpressions"
    "store (snd (extract_transform_load abc_world)) =
     \<lparr>order_tbl = Some abc_orders, product_performance = Some [], daily_trends = Some []\<rparr>"
    by simp_all
  from i2 two_days_run_upsert p t
  have b: "trace (snd (run_upsert UpsertDailyTrends two_days_rows two_days_world)) =
     [Connect, Execute (UpsertDailyTrends two_days_rows), Commit]" by simp
  from i3 third_refused_steps
  have c: "fst (extract_transform_load third_refused_world) = Inl OperationalError"
    "store (snd (extract_transform_load third_refused_world)) =
     \<lparr>order_tbl = Some [], product_performance = Some [], daily_trends = Some []\<rparr>"
    by simp_all
  from a s b c show ?thesis by (intro conjI)
qed

subsection \<open>The order of the steps\<close>

lemma step_eventsI:
  "trace (snd (f w)) = trace w @ evs \<Longrightarrow> step_events f w = evs"
  by (simp add: step_events_def)

lemma create_tables_trace:
  "\<exists>evs. trace (snd (create_tables w)) = trace w @ evs \<and> list_all schema_event evs \<and>
     (fst (create_tables w) = Inr () \<longrightarrow>
        evs = [Connect, Execute CreateProductPerformance, Execute CreateDailyTrends, Commit])"
  by (simp add: create_tables_eq)

lemma fetch_query_results_trace:
  assumes "cls Connect" "cls Commit" "cls Rollback" "cls (Execute q)"
  shows "\<exists>evs. trace (snd (fetch_query_results q w)) = trace w @ evs \<and> list_all cls evs"
  using assms by (simp add: fetch_query_results_eq split: sum.splits)

lemma product_rows_trace:
  "product_rows rs data w = (r, w') \<Longrightarrow>
     \<exists>evs. trace w' = trace w @ evs \<and> list_all product_event evs"
proof (induction rs arbitrary: data w)
  case Nil
  then show ?case by simp
next
  case (Cons x xs)
  show ?case
  proof (cases "length x = 4")
    case True
    with Cons.prems have "product_rows xs (data @ [x])
        (emit (Log (ProductLine (x ! 0) (x ! 1) (x ! 2) (x ! 3))) w) = (r, w')"
      by (simp add: product_rows_step del: product_rows.simps)
    from Cons.IH [OF this] obtain evs where
      "trace w' = trace w @ Log (ProductLine (x ! 0) (x ! 1) (x ! 2) (x ! 3)) # evs"
      "list_all product_event evs" by auto
    then show ?thesis by (intro exI [of _ "Log (ProductLine (x ! 0) (x ! 1) (x ! 2) (x ! 3)) # evs"]) simp
  next
    case False
    with Cons.prems have "w' = w" by (simp add: product_rows_step del: product_rows.simps)
    then show ?thesis by simp
  qed
qed

lemma daily_rows_trace:
  "daily_rows rs data w = (r, w') \<Longrightarrow>
     \<exists>evs. trace w' = trace w @ evs \<and> list_all daily_event evs"
proof (induction rs arbitrary: data w)
  case Nil
  then show ?case by simp
next
  case (Cons x xs)
  show ?case
  proof (cases "length x = 3")
    case True
    with Cons.prems have "daily_rows xs (data @ [x])
        (emit (Log (DailyLine (x ! 0) (x ! 1) (x ! 2))) w) = (r, w')"
      by (simp add: daily_rows_step del: daily_rows.simps)
    from Cons.IH [OF this] obtain evs where
      "trace w' = trace w @ Log (DailyLine (x ! 0) (x ! 1) (x ! 2)) # evs"
      "list_all daily_event evs" by auto
    then show ?thesis by (intro exI [of _ "Log (DailyLine (x ! 0) (x ! 1) (x ! 2)) # evs"]) simp
  next
    case False
    with Cons.prems have "w' = w" by (simp add: daily_rows_step del: daily_rows.simps)
    then show ?thesis by simp
  qed
qed

lemma run_upsert_trace:
  assumes "cls Connect" "cls Commit" "cls Rollback" "\<And>p. cls (Execute (q p))"
  shows "\<exists>evs. trace (snd (run_upsert q data w)) = trace w @ evs \<and> list_all cls evs"
proof (cases "refused w")
  case True
  then show ?thesis by (simp add: run_upsert_def with_connection_eq)
next
  case False
  obtain r w' where ev: "execute_pages q (paginate 100 data) (store w) (connected w) = (r, w')"
    by (cases "execute_pages q (paginate 100 data) (store w) (connected w)")
  from execute_pages_trace [OF ev] obtain k where
    t: "trace w' = trace (connected w) @ map (\<lambda>p. Execute (q p)) (take k (paginate 100 data))"
    by blast
  have c: "list_all cls (map (\<lambda>p. Execute (q p)) (take k (paginate 100 data)))"
    using assms(4) by (simp add: list_all_iff)
  show ?thesis
  proof (cases r)
    case (Inl e)
    with False ev t have "trace (snd (run_upsert q data w)) =
        trace w @ Connect # map (\<lambda>p. Execute (q p)) (take k (paginate 100 data)) @ [Rollback]"
      by (simp add: run_upsert_def with_connection_eq execute_values_def)
    with c assms(1,3) show ?thesis by simp
  next
    case (Inr d)
    with False ev t have "trace (snd (run_upsert q data w)) =
        trace w @ Connect # map (\<lambda>p. Execute (q p)) (take k (paginate 100 data)) @ [Commit]"
      by (simp add: run_upsert_def with_connection_eq execute_values_def)
    with c assms(1,2) show ?thesis by simp
  qed
qed

lemma upsert_product_performance_trace:
  "\<exists>evs. trace (snd (upsert_product_performance w)) = trace w @ evs \<and> list_all product_event evs"
proof -
  obtain r1 w1 where f: "fetch_query_results SelectProductPerformance w = (r1, w1)"
    by (cases "fetch_query_results SelectProductPerformance w")
  from fetch_query_results_trace [where cls = product_event and q = SelectProductPerformance, of w] f
  obtain e1 where e1: "trace w1 = trace w @ e1" "list_all product_event e1" by auto
  show ?thesis
  proof (cases r1)
    case (Inl e)
    with f e1 show ?thesis by (simp add: upsert_product_performance_def)
  next
    case (Inr results)
    obtain r2 w2 where p: "product_rows results [] (emit (Log ProductReportHeader) w1) = (r2, w2)"
      by (cases "product_rows results [] (emit (Log ProductReportHeader) w1)")
    from product_rows_trace [OF p] obtain e2 where
      e2: "trace w2 = trace w @ e1 @ Log ProductReportHeader # e2" "list_all product_event e2"
      using e1 by auto
    show ?thesis
    proof (cases r2)
      case (Inl e)
      with f Inr p e1 e2 show ?thesis
        by (intro exI [of _ "e1 @ Log ProductReportHeader # e2"])
          (simp add: upsert_product_performance_def)
    next
      case data: (Inr data)
      show ?thesis
      proof (cases "data = []")
        case True
        with f Inr p data e1 e2 show ?thesis
          by (intro exI [of _ "e1 @ Log ProductReportHeader # e2"])
            (simp add: upsert_product_performance_def)
      next
        case False
        from run_upsert_trace [where cls = product_event and q = UpsertProductPerformance, of data w2]
        obtain e3 where e3: "trace (snd (run_upsert UpsertProductPerformance data w2)) = trace w2 @ e3"
          "list_all product_event e3" by auto
        with f Inr p data False e1 e2 show ?thesis
          by (intro exI [of _ "e1 @ Log ProductReportHeader # e2 @ e3"])
            (simp add: upsert_product_performance_def)
      qed
    qed
  qed
qed

lemma upsert_daily_trends_trace_events:
  "\<exists>evs. trace (snd (upsert_daily_trends w)) = trace w @ evs \<and> list_all daily_event evs"
proof -
  obtain r1 w1 where f: "fetch_query_results SelectDailyTrends w = (r1, w1)"
    by (cases "fetch_query_results SelectDailyTrends w")
  from fetch_query_results_trace [where cls = daily_event and q = SelectDailyTrends, of w] f
  obtain e1 where e1: "trace w1 = trace w @ e1" "list_all daily_event e1" by auto
  show ?thesis
  proof (cases r1)
    case (Inl e)
    with f e1 show ?thesis by (simp add: upsert_daily_trends_def)
  next
    case (Inr results)
    obtain r2 w2 where p: "daily_rows results [] (emit (Log DailyReportHeader) w1) = (r2, w2)"
      by (cases "daily_rows results [] (emit (Log DailyReportHeader) w1)")
    from daily_rows_trace [OF p] obtain e2 where
      e2: "trace w2 = trace w @ e1 @ Log DailyReportHeader # e2" "list_all daily_event e2"
      using e1 by auto
    show ?thesis
    proof (cases r2)
      case (Inl e)
      with f Inr p e1 e2 show ?thesis
        by (intro exI [of _ "e1 @ Log DailyReportHeader # e2"])
          (simp add: upsert_daily_trends_def)
    next
      case data: (Inr data)
      show ?thesis
      proof (cases "data = []")
        case True
        with f Inr p data e1 e2 show ?thesis
          by (intro exI [of _ "e1 @ Log DailyReportHeader # e2"])
            (simp add: upsert_daily_trends_def)
      next
        case False
        from run_upsert_trace [where cls = daily_event and q = UpsertDailyTrends, of data w2]
        obtain e3 where e3: "trace (snd (run_upsert UpsertDailyTrends data w2)) = trace w2 @ e3"
          "list_all daily_event e3" by auto
        with f Inr p data False e1 e2 show ?thesis
          by (intro exI [of _ "e1 @ Log DailyReportHeader # e2 @ e3"])
            (simp add: upsert_daily_trends_def)
      qed
    qed
  qed
qed

text \<open>
  C5. The effects of a run are, in this order: the start marker, the effects of the schema
  step, then (only if the schema step returned) those of the product step, then (only if
  the product step returned) those of the daily step, then (only if the daily step
  returned) the completion marker. The run raises the error of the first step that raises
  and nothing follows it. Every read of the source and every write to a destination
  relation belongs to the product or the daily step, so when one occurs the schema step
  has executed both CREATE statements and committed.
\<close>

theorem run_order:
  "trace (snd (extract_transform_load w)) =
     trace w @ [Log EtlStarting] @ step_events create_tables (emit (Log EtlStarting) w) @
     (if fst (create_tables (emit (Log EtlStarting) w)) = Inr () then
        step_events upsert_product_performance (after_schema w) @
        (if fst (upsert_product_performance (after_schema w)) = Inr () then
           step_events upsert_daily_trends (after_products w) @
           (if fst (upsert_daily_trends (after_products w)) = Inr () then [Log EtlCompleted]
            else [])
         else [])
      else []) \<and>
   fst (extract_transform_load w) =
     (case fst (create_tables (emit (Log EtlStarting) w)) of
        Inl e \<Rightarrow> Inl e
      | Inr u \<Rightarrow>
          (case fst (upsert_product_performance (after_schema w)) of
             Inl e \<Rightarrow> Inl e
           | Inr u \<Rightarrow> fst (upsert_daily_trends (after_products w)))) \<and>
   list_all schema_event (step_events create_tables (emit (Log EtlStarting) w)) \<and>
   list_all product_event (step_events upsert_product_performance (after_schema w)) \<and>
   list_all daily_event (step_events upsert_daily_trends (after_products w)) \<and>
   (fst (create_tables (emit (Log EtlStarting) w)) = Inr () \<longrightarrow>
      step_events create_tables (emit (Log EtlStarting) w) =
        [Connect, Execute CreateProductPerformance, Execute CreateDailyTrends, Commit])"
proof -
  let ?w0 = "emit (Log EtlStarting) w"
  obtain r1 w1 where c: "create_tables ?w0 = (r1, w1)" by (cases "create_tables ?w0")
  then have s: "after_schema w = w1" by (simp add: after_schema_def)
  obtain r2 w2 where u: "upsert_product_performance w1 = (r2, w2)"
    by (cases "upsert_product_performance w1")
  with s have p: "after_products w = w2" by (simp add: after_products_def)
  obtain r3 w3 where v: "upsert_daily_trends w2 = (r3, w3)" by (cases "upsert_daily_trends w2")
  from create_tables_trace [of ?w0] c obtain e1 where
    e1: "trace w1 = trace w @ [Log EtlStarting] @ e1" "list_all schema_event e1"
      "r1 = Inr () \<longrightarrow> e1 = [Connect, Execute CreateProductPerformance, Execute CreateDailyTrends, Commit]"
    by auto
  from upsert_product_performance_trace [of w1] u obtain e2 where
    e2: "trace w2 = trace w1 @ e2" "list_all product_event e2" by auto
  from upsert_daily_trends_trace_events [of w2] v obtain e3 where
    e3: "trace w3 = trace w2 @ e3" "list_all daily_event e3" by auto
  have s1: "step_events create_tables ?w0 = e1"
    by (rule step_eventsI) (simp add: c e1)
  have s2: "step_events upsert_product_performance w1 = e2"
    by (rule step_eventsI) (simp add: u e2)
  have s3: "step_events upsert_daily_trends w2 = e3"
    by (rule step_eventsI) (simp add: v e3)
  have run: "extract_transform_load w =
     (case r1 of Inl e \<Rightarrow> (Inl e, w1)
      | Inr x \<Rightarrow> (case r2 of Inl e \<Rightarrow> (Inl e, w2)
          | Inr x \<Rightarrow> (case r3 of Inl e \<Rightarrow> (Inl e, w3)
              | Inr x \<Rightarrow> (Inr (), emit (Log EtlCompleted) w3))))"
    by (simp add: extract_transform_load_steps c s u p v split: sum.splits)
  show ?thesis
    using e1 e2 e3
    by (cases r1; cases r2; cases r3) (simp_all add: run s p c u v s1 s2 s3)
qed

theorem run_order_witness:
  "fst (create_tables (emit (Log EtlStarting) fresh_world)) = Inr () \<and>
   step_events create_tables (emit (Log EtlStarting) fresh_world) =
     [Connect, Execute CreateProductPerformance, Execute CreateDailyTrends, Commit] \<and>
   list_all daily_event (step_events upsert_daily_trends (after_products fresh_world))"
proof -
  have "conn_refused (emit (Log EtlStarting) fresh_world) = []" by (simp add: fresh_world_def)
  then have "fst (create_tables (emit (Log EtlStarting) fresh_world)) = Inr ()"
    by (rule create_tables_accepted(1))
  with run_order [of fresh_world] show ?thesis by simp
qed

subsection \<open>Running twice\<close>

lemma first_run_facts:
  "fst (extract_transform_load (stale_world z_orders)) = Inl TooFewExpressions"
  "store first_run = store (stale_world z_orders)"
proof -
  have a: "order_tbl (store (stale_world z_orders)) = Some z_orders" "z_orders \<noteq> []"
    "conn_refused (stale_world z_orders) = []"
    by (simp_all add: stale_world_def z_orders_def)
  from etl_pp_failure [OF a]
  show "fst (extract_transform_load (stale_world z_orders)) = Inl TooFewExpressions"
    and "store first_run = store (stale_world z_orders)"
    by (simp_all add: first_run_def) (simp add: stale_world_def)
qed

lemma second_run_facts:
  "fst (extract_transform_load second_run_start) = Inl TooFewExpressions"
  "store (snd (extract_transform_load second_run_start)) = store (stale_world z_orders)"
proof -
  have s: "store second_run_start = store (stale_world z_orders)"
    by (simp add: second_run_start_def first_run_facts)
  have a: "order_tbl (store second_run_start) = Some z_orders" "z_orders \<noteq> []"
    "conn_refused second_run_start = []"
    by (simp_all add: s) (simp_all add: stale_world_def z_orders_def second_run_start_def)
  from etl_pp_failure [OF a]
  show "fst (extract_transform_load second_run_start) = Inl TooFewExpressions"
    and "store (snd (extract_transform_load second_run_start)) = store (stale_world z_orders)"
    by (simp_all add: s) (simp add: stale_world_def)
qed

text \<open>
  C7. The claim: a second run over an unchanged source leaves the destination rows of the
  first run, with report\_date advanced to the date of the second run. On a database that
  holds a row for product Z reported on 2024-12-31 and a source with one order for Z, the
  runs of 2025-01-03 and 2025-01-04 both raise in the product upsert; after the second
  run the row for Z still carries 2024-12-31 and its old figures, and daily\_trends still
  holds its old row for 2025-01-01.
\<close>

theorem rerun_leaves_stale_rows:
  "current_date (stale_world z_orders) = (2025, 1, 3) \<and>
   current_date second_run_start = (2025, 1, 4) \<and>
   order_tbl (store second_run_start) = Some z_orders \<and>
   fst (extract_transform_load (stale_world z_orders)) = Inl TooFewExpressions \<and>
   fst (extract_transform_load second_run_start) = Inl TooFewExpressions \<and>
   product_performance (store (snd (extract_transform_load second_run_start))) =
     Some [\<lparr>pp_product = ''Z'', order_count = 4, total_sales = 40, avg_sales = 10,
            report_date = (2024, 12, 31)\<rparr>] \<and>
   daily_trends (store (snd (extract_transform_load second_run_start))) =
     Some [\<lparr>order_date = (2024, 12, 31), daily_orders = 4, daily_sales = 40\<rparr>,
           \<lparr>order_date = (2025, 1, 1), daily_orders = 1, daily_sales = 1\<rparr>]"
proof -
  have "store second_run_start = store (stale_world z_orders)"
    by (simp add: second_run_start_def first_run_facts)
  then show ?thesis
    by (simp add: first_run_facts second_run_facts)
      (simp add: stale_world_def second_run_start_def)
qed

subsection \<open>The daily step, in full\<close>

lemma ocdu_foldl:
  "distinct (map key rs) \<Longrightarrow> key ` set rs \<inter> set touched = {} \<Longrightarrow>
     on_conflict_do_update key upd rs touched tbl = Inr (foldl (upsert_row key upd) tbl rs)"
proof (induction rs arbitrary: touched tbl)
  case Nil
  show ?case by simp
next
  case (Cons r rs)
  from Cons.prems have a: "key r \<notin> set touched" and b: "distinct (map key rs)"
    and c: "key ` set rs \<inter> set (key r # touched) = {}" by auto
  show ?case
    using a Cons.IH [OF b c] by (simp add: upsert_row_def)
qed

lemma foldl_upsert_row:
  assumes kp: "\<And>x r. key (upd x r) = key x"
  shows "distinct (map key rs) \<Longrightarrow>
     foldl (upsert_row key upd) tbl rs =
       map (\<lambda>x. case find (\<lambda>r. key r = key x) rs of None \<Rightarrow> x | Some r \<Rightarrow> upd x r) tbl @
       filter (\<lambda>r. key r \<notin> key ` set tbl) rs"
proof (induction rs arbitrary: tbl)
  case Nil
  show ?case by simp
next
  case (Cons r rs)
  from Cons.prems have nr: "key r \<notin> key ` set rs" and d: "distinct (map key rs)" by auto
  have none: "find (\<lambda>r'. key r' = key r) rs = None"
    unfolding find_None_iff using nr by (metis imageI)
  let ?G = "\<lambda>rs x. case find (\<lambda>r. key r = key x) rs of None \<Rightarrow> x | Some r \<Rightarrow> upd x r"
  let ?h = "\<lambda>x. if key x = key r then upd x r else x"
  show ?case
  proof (cases "key r \<in> key ` set tbl")
    case True
    have "map key (map ?h tbl) = map key tbl" by (simp add: kp)
    then have keys: "key ` set (map ?h tbl) = key ` set tbl" by (metis list.set_map)
    have g: "\<And>x. ?G rs (?h x) = ?G (r # rs) x"
    proof -
      fix x
      show "?G rs (?h x) = ?G (r # rs) x"
      proof (cases "key x = key r")
        case True
        then show ?thesis by (simp add: kp none)
      next
        case False
        then have "key r \<noteq> key x" by simp
        with False show ?thesis by simp
      qed
    qed
    have f: "filter (\<lambda>r'. key r' \<notin> key ` set tbl) rs = filter (\<lambda>r'. key r' \<notin> key ` set tbl) (r # rs)"
      using True by simp
    have "foldl (upsert_row key upd) tbl (r # rs) = foldl (upsert_row key upd) (map ?h tbl) rs"
      using True by (simp add: upsert_row_def)
    also have "\<dots> = map (?G rs) (map ?h tbl) @ filter (\<lambda>r'. key r' \<notin> key ` set (map ?h tbl)) rs"
      by (rule Cons.IH [OF d])
    also have "map (?G rs) (map ?h tbl) = map (?G (r # rs)) tbl"
      by (simp only: map_map comp_def g)
    finally show ?thesis by (simp only: keys f)
  next
    case False
    have g: "\<And>x. x \<in> set tbl \<Longrightarrow> ?G rs x = ?G (r # rs) x"
    proof -
      fix x assume "x \<in> set tbl"
      with False have "key r \<noteq> key x" by (metis imageI)
      then show "?G rs x = ?G (r # rs) x" by simp
    qed
    have gr: "?G rs r = r" by (simp add: none)
    have f: "filter (\<lambda>r'. key r' \<notin> key ` set (tbl @ [r])) rs = filter (\<lambda>r'. key r' \<notin> key ` set tbl) rs"
    proof (rule filter_cong [OF refl])
      fix x assume "x \<in> set rs"
      with nr have "key x \<noteq> key r" by (metis imageI)
      then show "(key x \<notin> key ` set (tbl @ [r])) = (key x \<notin> key ` set tbl)" by simp
    qed
    have "foldl (upsert_row key upd) tbl (r # rs) = foldl (upsert_row key upd) (tbl @ [r]) rs"
      using False by (simp add: upsert_row_def)
    also have "\<dots> = map (?G rs) (tbl @ [r]) @ filter (\<lambda>r'. key r' \<notin> key ` set (tbl @ [r])) rs"
      by (rule Cons.IH [OF d])
    also have "map (?G rs) (tbl @ [r]) = map (?G (r # rs)) tbl @ [r]"
      using g gr by (simp cong: map_cong)
    finally show ?thesis using False by (simp only: f) simp
  qed
qed

lemma dt_values_row_dt_values: "dt_in_range r \<Longrightarrow> dt_values_row (dt_values r) = Inr r"
  by (cases r) (simp add: dt_values_row_def dt_values_def dt_in_range_def)

lemma values_rows_dt_values:
  "\<forall>r \<in> set rs. dt_in_range r \<Longrightarrow> values_rows dt_values_row (map dt_values rs) = Inr rs"
  by (induction rs) (simp_all add: dt_values_row_dt_values)

lemma check_arity_dt_values: "check_arity dt_insert_columns (map dt_values rs) = Inr ()"
  by (induction rs) (simp_all add: dt_values_def dt_insert_columns_def)

lemma upsert_dt_statement:
  assumes "daily_trends db = Some tbl" "distinct (map order_date rs)" "\<forall>r \<in> set rs. dt_in_range r"
  shows "exec_sql today (UpsertDailyTrends (map dt_values rs)) db =
     Inr ([], db\<lparr>daily_trends := Some (foldl (upsert_row order_date dt_do_update) tbl rs)\<rparr>)"
proof -
  have "on_conflict_do_update order_date dt_do_update rs [] tbl =
      Inr (foldl (upsert_row order_date dt_do_update) tbl rs)"
    by (rule ocdu_foldl [OF assms(2)]) simp
  then show ?thesis
    by (simp add: assms(1) check_arity_dt_values values_rows_dt_values [OF assms(3)])
qed

lemma execute_pages_dt:
  "0 < n \<Longrightarrow> daily_trends db = Some tbl \<Longrightarrow> distinct (map order_date rs) \<Longrightarrow>
     \<forall>r \<in> set rs. dt_in_range r \<Longrightarrow>
     fst (execute_pages UpsertDailyTrends (paginate n (map dt_values rs)) db w) =
       Inr (db\<lparr>daily_trends := Some (foldl (upsert_row order_date dt_do_update) tbl rs)\<rparr>)"
proof (induction n rs arbitrary: db tbl w rule: paginate.induct)
  case (1 n rs)
  show ?case
  proof (cases "rs = []")
    case True
    with "1.prems"(2) show ?thesis by (cases db) simp
  next
    case False
    let ?tbl1 = "foldl (upsert_row order_date dt_do_update) tbl (take n rs)"
    let ?db1 = "db\<lparr>daily_trends := Some ?tbl1\<rparr>"
    have pg: "paginate n (map dt_values rs) =
        map dt_values (take n rs) # paginate n (map dt_values (drop n rs))"
    proof -
      have "map dt_values rs \<noteq> []" using False by simp
      note e = paginate_nonempty [OF this "1.prems"(1)]
      show ?thesis by (rule e [unfolded take_map drop_map])
    qed
    have d1: "distinct (map order_date (take n rs))"
      using "1.prems"(3) by (simp add: take_map [symmetric] del: take_map)
    have d2: "distinct (map order_date (drop n rs))"
      using "1.prems"(3) by (simp add: drop_map [symmetric] del: drop_map)
    have r1: "\<forall>r \<in> set (take n rs). dt_in_range r"
      using "1.prems"(4) by (auto dest: in_set_takeD)
    have r2: "\<forall>r \<in> set (drop n rs). dt_in_range r"
      using "1.prems"(4) by (auto dest: in_set_dropD)
    have first: "exec_sql (current_date w) (UpsertDailyTrends (map dt_values (take n rs))) db =
        Inr ([], ?db1)"
      by (rule upsert_dt_statement [OF "1.prems"(2) d1 r1])
    have t1: "daily_trends ?db1 = Some ?tbl1" by simp
    have ne: "\<not> (rs = [] \<or> n = 0)" using False "1.prems"(1) by simp
    have rest: "fst (execute_pages UpsertDailyTrends (paginate n (map dt_values (drop n rs))) ?db1
        (emit (Execute (UpsertDailyTrends (map dt_values (take n rs)))) w)) =
      Inr (?db1\<lparr>daily_trends := Some (foldl (upsert_row order_date dt_do_update) ?tbl1 (drop n rs))\<rparr>)"
      by (rule "1.IH" [OF ne "1.prems"(1) t1 d2 r2])
    have "foldl (upsert_row order_date dt_do_update) ?tbl1 (drop n rs) =
        foldl (upsert_row order_date dt_do_update) tbl (take n rs @ drop n rs)"
      by (simp only: foldl_append)
    then have fo: "foldl (upsert_row order_date dt_do_update) ?tbl1 (drop n rs) =
        foldl (upsert_row order_date dt_do_update) tbl rs" by simp
    have "execute_pages UpsertDailyTrends (paginate n (map dt_values rs)) db w =
        execute_pages UpsertDailyTrends (paginate n (map dt_values (drop n rs))) ?db1
          (emit (Execute (UpsertDailyTrends (map dt_values (take n rs)))) w)"
      unfolding pg by (simp add: cur_execute_def first del: exec_sql.simps)
    with rest fo show ?thesis by simp
  qed
qed

lemma run_upsert_dt:
  assumes "\<not> refused w" "daily_trends (store w) = Some tbl" "distinct (map order_date rs)"
    "\<forall>r \<in> set rs. dt_in_range r"
  shows "fst (run_upsert UpsertDailyTrends (map dt_values rs) w) = Inr ()"
    and "store (snd (run_upsert UpsertDailyTrends (map dt_values rs) w)) =
      (store w)\<lparr>daily_trends := Some (foldl (upsert_row order_date dt_do_update) tbl rs)\<rparr>"
proof -
  obtain r w' where ev: "execute_pages UpsertDailyTrends (paginate 100 (map dt_values rs))
      (store w) (connected w) = (r, w')"
    by (cases "execute_pages UpsertDailyTrends (paginate 100 (map dt_values rs)) (store w) (connected w)")
  have "(0::nat) < 100" by simp
  from execute_pages_dt [OF this assms(2,3,4), of "connected w"] ev
  have r: "r = Inr ((store w)\<lparr>daily_trends := Some (foldl (upsert_row order_date dt_do_update) tbl rs)\<rparr>)"
    by simp
  show "fst (run_upsert UpsertDailyTrends (map dt_values rs) w) = Inr ()"
    using assms(1) ev r by (simp add: run_upsert_def with_connection_eq execute_values_def)
  show "store (snd (run_upsert UpsertDailyTrends (map dt_values rs) w)) =
      (store w)\<lparr>daily_trends := Some (foldl (upsert_row order_date dt_do_update) tbl rs)\<rparr>"
    using assms(1) ev r by (simp add: run_upsert_def with_connection_eq execute_values_def)
qed

lemma daily_trends_spec_rows: "daily_trends_spec os = map dt_values (daily_trends_rows os)"
  by (simp add: daily_trends_spec_def daily_trends_rows_def dt_values_def comp_def)

lemma daily_trends_rows_keys:
  "map order_date (daily_trends_rows os) = sort (remdups (map (\<lambda>r. DATE (created_at r)) os))"
  by (simp add: daily_trends_rows_def comp_def)

lemma daily_trends_rows_distinct: "distinct (map order_date (daily_trends_rows os))"
  by (simp only: daily_trends_rows_keys) simp

lemma daily_trends_rows_range:
  assumes "int (length os) \<le> 2147483647"
  shows "\<forall>r \<in> set (daily_trends_rows os). dt_in_range r"
proof -
  have n: "length os \<le> 2147483647" using assms by simp
  have le: "\<And>d. length (filter (\<lambda>r. DATE (created_at r) = d) os) \<le> 2147483647"
    using n length_filter_le le_trans by blast
  show ?thesis
    unfolding daily_trends_rows_def dt_in_range_def by (simp add: le del: set_sort)
qed

lemma find_by_key:
  assumes "\<And>d. key (mk d) = d"
  shows "find (\<lambda>r. key r = d) (map mk ds) = (if d \<in> set ds then Some (mk d) else None)"
  by (induction ds) (auto simp: assms)

lemma foldl_daily_trends_rows:
  "foldl (upsert_row order_date dt_do_update) tbl (daily_trends_rows os) = daily_trends_after os tbl"
proof -
  let ?mk = "\<lambda>d. \<lparr>order_date = d,
                daily_orders = int (length (filter (\<lambda>r. DATE (created_at r) = d) os)),
                daily_sales = sum_list (map amount (filter (\<lambda>r. DATE (created_at r) = d) os))\<rparr>"
  let ?ds = "sort (remdups (map (\<lambda>r. DATE (created_at r)) os))"
  have rows: "daily_trends_rows os = map ?mk ?ds" by (simp add: daily_trends_rows_def)
  have f: "\<And>d. find (\<lambda>r. order_date r = d) (daily_trends_rows os) =
      (if d \<in> set (map (\<lambda>r. DATE (created_at r)) os) then Some (?mk d) else None)"
    unfolding rows by (subst find_by_key) simp_all
  have "foldl (upsert_row order_date dt_do_update) tbl (daily_trends_rows os) =
      map (\<lambda>x. case find (\<lambda>r. order_date r = order_date x) (daily_trends_rows os) of
                 None \<Rightarrow> x | Some r \<Rightarrow> dt_do_update x r) tbl @
      filter (\<lambda>r. order_date r \<notin> order_date ` set tbl) (daily_trends_rows os)"
    by (rule foldl_upsert_row [OF dt_do_update_key daily_trends_rows_distinct])
  also have "\<dots> = daily_trends_after os tbl"
    unfolding daily_trends_after_def f by (simp add: dt_do_update_def)
  finally show ?thesis .
qed

lemma same_daily_trends: "daily_trends db = Some tbl \<Longrightarrow> db\<lparr>daily_trends := Some tbl\<rparr> = db"
  by (cases db) simp

lemma upsert_daily_trends_total:
  assumes "order_tbl (store w) = Some os" "conn_refused w = []" "daily_trends (store w) = Some tbl"
    "int (length os) \<le> 2147483647"
  shows "fst (upsert_daily_trends w) = Inr () \<and>
    trace (snd (upsert_daily_trends w)) =
      trace w @ [Connect, Execute SelectDailyTrends, Commit, Log DailyReportHeader] @
      map (\<lambda>r. Log (DailyLine (r ! 0) (r ! 1) (r ! 2))) (daily_trends_spec os) @
      (if os = [] then []
       else Connect # map (\<lambda>p. Execute (UpsertDailyTrends p)) (paginate 100 (daily_trends_spec os)) @
            [Commit]) \<and>
    store (snd (upsert_daily_trends w)) = (store w)\<lparr>daily_trends := Some (daily_trends_after os tbl)\<rparr>"
proof -
  let ?rows = "daily_trends_spec os"
  have q: "daily_trends_query os = ?rows" by (rule daily_trends_query_spec)
  have nr: "\<not> refused w" using assms(2) by (simp add: refused_def)
  define w1 where
    "w1 = emit Commit ((emit (Execute SelectDailyTrends) (connected w))\<lparr>store := store w\<rparr>)"
  have f: "fetch_query_results SelectDailyTrends w = (Inr ?rows, w1)"
    using nr assms(1) by (simp add: fetch_query_results_eq w1_def q)
  define w2 where
    "w2 = (emit (Log DailyReportHeader) w1)\<lparr>trace := trace (emit (Log DailyReportHeader) w1) @
       map (\<lambda>r. Log (DailyLine (r ! 0) (r ! 1) (r ! 2))) ?rows\<rparr>"
  have d: "daily_rows ?rows [] (emit (Log DailyReportHeader) w1) = (Inr ?rows, w2)"
    using daily_rows_ok [OF dt_query_lengths, of os "[]" "emit (Log DailyReportHeader) w1"]
    by (simp add: w2_def q)
  have w2: "store w2 = store w" "conn_refused w2 = []"
      "trace w2 = trace w @ [Connect, Execute SelectDailyTrends, Commit, Log DailyReportHeader] @
         map (\<lambda>r. Log (DailyLine (r ! 0) (r ! 1) (r ! 2))) ?rows"
    using assms(2) by (simp_all add: w2_def w1_def)
  show ?thesis
  proof (cases "os = []")
    case True
    then have e: "?rows = []" using q by (simp add: dt_query_empty_iff [symmetric])
    then have u: "upsert_daily_trends w = (Inr (), w2)"
      using f d by (simp add: upsert_daily_trends_def)
    have "daily_trends_after os tbl = tbl"
      using True by (simp add: daily_trends_after_def daily_trends_rows_def)
    with u w2 True e assms(3) show ?thesis by (simp add: same_daily_trends)
  next
    case False
    then have ne: "?rows \<noteq> []" using q by (simp add: dt_query_empty_iff [symmetric])
    have u: "upsert_daily_trends w = run_upsert UpsertDailyTrends ?rows w2"
      using f d ne by (simp add: upsert_daily_trends_def)
    have nr2: "\<not> refused w2" using w2 by (simp add: refused_def)
    have t2: "daily_trends (store w2) = Some tbl" using w2 assms(3) by simp
    note r = run_upsert_dt [OF nr2 t2 daily_trends_rows_distinct daily_trends_rows_range [OF assms(4)],
        folded daily_trends_spec_rows, unfolded foldl_daily_trends_rows]
    from run_upsert_success_trace [OF r(1)]
    have t: "trace (snd (run_upsert UpsertDailyTrends ?rows w2)) =
        trace w2 @ Connect # map (\<lambda>p. Execute (UpsertDailyTrends p)) (paginate 100 ?rows) @ [Commit]" .
    show ?thesis
      unfolding u using r t w2 False by simp
  qed
qed

lemma stale_after:
  "daily_trends_after two_days_orders
     [\<lparr>order_date = (2024, 12, 31), daily_orders = 4, daily_sales = 40\<rparr>,
      \<lparr>order_date = (2025, 1, 1), daily_orders = 1, daily_sales = 1\<rparr>] =
     [\<lparr>order_date = (2024, 12, 31), daily_orders = 4, daily_sales = 40\<rparr>,
      \<lparr>order_date = (2025, 1, 1), daily_orders = 2, daily_sales = 15\<rparr>,
      \<lparr>order_date = (2025, 1, 2), daily_orders = 1, daily_sales = 7\<rparr>]"
  by (simp add: daily_trends_after_def daily_trends_rows_def two_days_orders_def DATE_def)

lemma stale_upsert:
  "fst (upsert_daily_trends (stale_world two_days_orders)) = Inr () \<and>
   daily_trends (store (snd (upsert_daily_trends (stale_world two_days_orders)))) =
     Some [\<lparr>order_date = (2024, 12, 31), daily_orders = 4, daily_sales = 40\<rparr>,
           \<lparr>order_date = (2025, 1, 1), daily_orders = 2, daily_sales = 15\<rparr>,
           \<lparr>order_date = (2025, 1, 2), daily_orders = 1, daily_sales = 7\<rparr>]"
proof -
  have a: "order_tbl (store (stale_world two_days_orders)) = Some two_days_orders"
    "conn_refused (stale_world two_days_orders) = []"
    "daily_trends (store (stale_world two_days_orders)) =
       Some [\<lparr>order_date = (2024, 12, 31), daily_orders = 4, daily_sales = 40\<rparr>,
             \<lparr>order_date = (2025, 1, 1), daily_orders = 1, daily_sales = 1\<rparr>]"
    by (simp_all add: stale_world_def)
  have b: "int (length two_days_orders) \<le> 2147483647" by (simp add: two_days_orders_def)
  from upsert_daily_trends_total [OF a b]
  have f: "fst (upsert_daily_trends (stale_world two_days_orders)) = Inr ()"
    and st: "store (snd (upsert_daily_trends (stale_world two_days_orders))) =
      (store (stale_world two_days_orders))\<lparr>daily_trends := Some (daily_trends_after two_days_orders
        [\<lparr>order_date = (2024, 12, 31), daily_orders = 4, daily_sales = 40\<rparr>,
         \<lparr>order_date = (2025, 1, 1), daily_orders = 1, daily_sales = 1\<rparr>])\<rparr>"
    by blast+
  show ?thesis unfolding st stale_after using f by simp
qed

text \<open>
  C3. For every source relation the daily query returns exactly one row per calendar
  date of \<open>created_at\<close>, in ascending date order, with the count of the orders of that
  date and the sum of their amounts (no date filter); the step logs one line per row in
  that order and submits the rows in that order. When daily\_trends exists and the source
  has at most 2147483647 rows, the step returns, its effects are the read, the log lines
  and one connection that executes every page of the batch and commits, and daily\_trends
  is then \<open>daily_trends_after\<close>: rows of dates with orders overwritten in place, rows
  of other dates kept, rows of new dates appended. On the example, from an empty relation,
  daily\_trends holds exactly 2025-01-01: 2 orders, 15 and 2025-01-02: 1 order, 7; from a
  relation that held 2024-12-31 and a stale row for 2025-01-01, it holds the row of
  2024-12-31 unchanged, 2025-01-01: 2, 15 and 2025-01-02: 1, 7.
\<close>

theorem upsert_daily_trends_groups:
  assumes "order_tbl (store w) = Some os" and "conn_refused w = []"
  shows "daily_trends_query os = daily_trends_spec os \<and>
    (\<exists>rest. trace (snd (upsert_daily_trends w)) =
       trace w @ [Connect, Execute SelectDailyTrends, Commit, Log DailyReportHeader] @
       map (\<lambda>r. Log (DailyLine (r ! 0) (r ! 1) (r ! 2))) (daily_trends_spec os) @ rest \<and>
     (os \<noteq> [] \<longrightarrow>
        (\<exists>rest'. rest = Connect # Execute (UpsertDailyTrends (take 100 (daily_trends_spec os))) # rest'))) \<and>
    (daily_trends (store w) = Some tbl \<and> int (length os) \<le> 2147483647 \<longrightarrow>
       fst (upsert_daily_trends w) = Inr () \<and>
       trace (snd (upsert_daily_trends w)) =
         trace w @ [Connect, Execute SelectDailyTrends, Commit, Log DailyReportHeader] @
         map (\<lambda>r. Log (DailyLine (r ! 0) (r ! 1) (r ! 2))) (daily_trends_spec os) @
         (if os = [] then []
          else Connect #
               map (\<lambda>p. Execute (UpsertDailyTrends p)) (paginate 100 (daily_trends_spec os)) @
               [Commit]) \<and>
       store (snd (upsert_daily_trends w)) =
         (store w)\<lparr>daily_trends := Some (daily_trends_after os tbl)\<rparr>) \<and>
    fst (upsert_daily_trends two_days_world) = Inr () \<and>
    daily_trends (store (snd (upsert_daily_trends two_days_world))) =
      Some [\<lparr>order_date = (2025, 1, 1), daily_orders = 2, daily_sales = 15\<rparr>,
            \<lparr>order_date = (2025, 1, 2), daily_orders = 1, daily_sales = 7\<rparr>] \<and>
    daily_trends (store (snd (upsert_daily_trends (stale_world two_days_orders)))) =
      Some [\<lparr>order_date = (2024, 12, 31), daily_orders = 4, daily_sales = 40\<rparr>,
            \<lparr>order_date = (2025, 1, 1), daily_orders = 2, daily_sales = 15\<rparr>,
            \<lparr>order_date = (2025, 1, 2), daily_orders = 1, daily_sales = 7\<rparr>]"
proof -
  note a = daily_trends_query_spec [of os]
  note b = upsert_daily_trends_trace [OF assms, unfolded daily_trends_query_spec]
  have c: "daily_trends (store w) = Some tbl \<and> int (length os) \<le> 2147483647 \<longrightarrow>
       fst (upsert_daily_trends w) = Inr () \<and>
       trace (snd (upsert_daily_trends w)) =
         trace w @ [Connect, Execute SelectDailyTrends, Commit, Log DailyReportHeader] @
         map (\<lambda>r. Log (DailyLine (r ! 0) (r ! 1) (r ! 2))) (daily_trends_spec os) @
         (if os = [] then []
          else Connect #
               map (\<lambda>p. Execute (UpsertDailyTrends p)) (paginate 100 (daily_trends_spec os)) @
               [Commit]) \<and>
       store (snd (upsert_daily_trends w)) =
         (store w)\<lparr>daily_trends := Some (daily_trends_after os tbl)\<rparr>"
    using upsert_daily_trends_total [OF assms] by blast
  note d = two_days_upsert [THEN conjunct1] two_days_upsert [THEN conjunct2]
  note e = stale_upsert [THEN conjunct2]
  from a b c d e show ?thesis by (intro conjI)
qed

theorem upsert_daily_trends_groups_witness:
  "order_tbl (store (stale_world two_days_orders)) = Some two_days_orders \<and>
   conn_refused (stale_world two_days_orders) = [] \<and>
   daily_trends (store (stale_world two_days_orders)) =
     Some [\<lparr>order_date = (2024, 12, 31), daily_orders = 4, daily_sales = 40\<rparr>,
           \<lparr>order_date = (2025, 1, 1), daily_orders = 1, daily_sales = 1\<rparr>] \<and>
   int (length two_days_orders) \<le> 2147483647 \<and>
   daily_trends_spec two_days_orders =
     [[Date (2025, 1, 1), Bigint 2, Numeric 15], [Date (2025, 1, 2), Bigint 1, Numeric 7]] \<and>
   fst (upsert_daily_trends (stale_world two_days_orders)) = Inr () \<and>
   trace (snd (upsert_daily_trends (stale_world two_days_orders))) =
     [Connect, Execute SelectDailyTrends, Commit, Log DailyReportHeader,
      Log (DailyLine (Date (2025, 1, 1)) (Bigint 2) (Numeric 15)),
      Log (DailyLine (Date (2025, 1, 2)) (Bigint 1) (Numeric 7)),
      Connect,
      Execute (UpsertDailyTrends
        [[Date (2025, 1, 1), Bigint 2, Numeric 15], [Date (2025, 1, 2), Bigint 1, Numeric 7]]),
      Commit] \<and>
   store (snd (upsert_daily_trends (stale_world two_days_orders))) =
     \<lparr>order_tbl = Some two_days_orders,
      product_performance =
        Some [\<lparr>pp_product = ''Z'', order_count = 4, total_sales = 40, avg_sales = 10,
               report_date = (2024, 12, 31)\<rparr>],
      daily_trends =
        Some [\<lparr>order_date = (2024, 12, 31), daily_orders = 4, daily_sales = 40\<rparr>,
              \<lparr>order_date = (2025, 1, 1), daily_orders = 2, daily_sales = 15\<rparr>,
              \<lparr>order_date = (2025, 1, 2), daily_orders = 1, daily_sales = 7\<rparr>]\<rparr>"
proof -
  have a: "order_tbl (store (stale_world two_days_orders)) = Some two_days_orders"
    "conn_refused (stale_world two_days_orders) = []"
    by (simp_all add: stale_world_def)
  have t: "daily_trends (store (stale_world two_days_orders)) =
       Some [\<lparr>order_date = (2024, 12, 31), daily_orders = 4, daily_sales = 40\<rparr>,
             \<lparr>order_date = (2025, 1, 1), daily_orders = 1, daily_sales = 1\<rparr>]"
    by (simp add: stale_world_def)
  have b: "int (length two_days_orders) \<le> 2147483647" by (simp add: two_days_orders_def)
  have s: "daily_trends_spec two_days_orders =
     [[Date (2025, 1, 1), Bigint 2, Numeric 15], [Date (2025, 1, 2), Bigint 1, Numeric 7]]"
    using two_days_query by (simp only: daily_trends_query_spec)
  have p: "paginate 100 (daily_trends_spec two_days_orders) = [daily_trends_spec two_days_orders]"
    by (rule paginate_small) (simp_all add: s)
  note th = upsert_daily_trends_groups [OF a, where tbl =
       "[\<lparr>order_date = (2024, 12, 31), daily_orders = 4, daily_sales = 40\<rparr>,
         \<lparr>order_date = (2025, 1, 1), daily_orders = 1, daily_sales = 1\<rparr>]"]
  from th t b have r: "fst (upsert_daily_trends (stale_world two_days_orders)) = Inr ()"
    "trace (snd (upsert_daily_trends (stale_world two_days_orders))) =
         trace (stale_world two_days_orders) @
         [Connect, Execute SelectDailyTrends, Commit, Log DailyReportHeader] @
         map (\<lambda>r. Log (DailyLine (r ! 0) (r ! 1) (r ! 2))) (daily_trends_spec two_days_orders) @
         (if two_days_orders = [] then []
          else Connect #
               map (\<lambda>p. Execute (UpsertDailyTrends p)) (paginate 100 (daily_trends_spec two_days_orders)) @
               [Commit])"
    "store (snd (upsert_daily_trends (stale_world two_days_orders))) =
         (store (stale_world two_days_orders))\<lparr>daily_trends := Some (daily_trends_after two_days_orders
       [\<lparr>order_date = (2024, 12, 31), daily_orders = 4, daily_sales = 40\<rparr>,
         \<lparr>order_date = (2025, 1, 1), daily_orders = 1, daily_sales = 1\<rparr>])\<rparr>"
    by blast+
  have ne: "two_days_orders \<noteq> []" by (simp add: two_days_orders_def)
  have r2: "trace (snd (upsert_daily_trends (stale_world two_days_orders))) =
     [Connect, Execute SelectDailyTrends, Commit, Log DailyReportHeader,
      Log (DailyLine (Date (2025, 1, 1)) (Bigint 2) (Numeric 15)),
      Log (DailyLine (Date (2025, 1, 2)) (Bigint 1) (Numeric 7)),
      Connect,
      Execute (UpsertDailyTrends
        [[Date (2025, 1, 1), Bigint 2, Numeric 15], [Date (2025, 1, 2), Bigint 1, Numeric 7]]),
      Commit]"
    unfolding r(2) p by (simp add: ne s) (simp add: stale_world_def)
  have r3: "store (snd (upsert_daily_trends (stale_world two_days_orders))) =
     \<lparr>order_tbl = Some two_days_orders,
      product_performance =
        Some [\<lparr>pp_product = ''Z'', order_count = 4, total_sales = 40, avg_sales = 10,
               report_date = (2024, 12, 31)\<rparr>],
      daily_trends =
        Some [\<lparr>order_date = (2024, 12, 31), daily_orders = 4, daily_sales = 40\<rparr>,
              \<lparr>order_date = (2025, 1, 1), daily_orders = 2, daily_sales = 15\<rparr>,
              \<lparr>order_date = (2025, 1, 2), daily_orders = 1, daily_sales = 7\<rparr>]\<rparr>"
    unfolding r(3) stale_after by (simp add: stale_world_def)
  from a t b s r(1) r2 r3 show ?thesis by (intro conjI)
qed

text \<open>
  C6. The claim: each run's upsert affects at most one row per key, creating the row on
  first appearance of the key and overwriting the listed fields in place on conflict,
  never duplicating a key. No key is ever duplicated (\<open>keys_stay_unique\<close>), but a run
  does not create the row of a product that appears for the first time: with one order for
  product A and both relations empty, the run raises in the product upsert and leaves
  product\_performance without a row for A, and daily\_trends without a row for the date
  of the order.
\<close>

theorem first_appearance_creates_no_row:
  "order_tbl (store one_order_world) =
     Some [\<lparr>product = ''A'', amount = 10, created_at = ((2025, 1, 1), 0)\<rparr>] \<and>
   product_performance (store one_order_world) = Some [] \<and>
   daily_trends (store one_order_world) = Some [] \<and>
   fst (extract_transform_load one_order_world) = Inl TooFewExpressions \<and>
   product_performance (store (snd (extract_transform_load one_order_world))) = Some [] \<and>
   daily_trends (store (snd (extract_transform_load one_order_world))) = Some []"
proof -
  have a: "order_tbl (store one_order_world) =
      Some [\<lparr>product = ''A'', amount = 10, created_at = ((2025, 1, 1), 0)\<rparr>]"
    "[\<lparr>product = ''A'', amount = 10, created_at = ((2025, 1, 1), 0)\<rparr>] \<noteq> []"
    "conn_refused one_order_world = []"
    by (simp_all add: one_order_world_def)
  have b: "product_performance (store one_order_world) = Some []"
    "daily_trends (store one_order_world) = Some []"
    by (simp_all add: one_order_world_def)
  from etl_pp_failure [OF a] a(1) b show ?thesis by simp
qed

end
